theory Spec2Isabelle
  imports Main
begin

section \<open>JavaScript values used by the action\<close>

text \<open>
  A JavaScript string is a sequence of code units; it is modelled as \<open>string\<close>, so the
  code units covered are those below 256. A Number is an IEEE double, modelled by the
  type \<open>number\<close> below. \<open>null\<close> and \<open>undefined\<close> are \<open>None\<close>. An \<open>Error\<close> that is thrown is
  the \<open>Inl\<close> of a sum.
\<close>

datatype js_error =
    Error string               \<comment> \<open>\<open>new Error(message)\<close>\<close>
  | RequestError nat string    \<comment> \<open>an HTTP error of the REST client: status and message\<close>

fun message :: "js_error \<Rightarrow> string" where
  "message (Error m) = m"
| "message (RequestError st m) = m"

fun status :: "js_error \<Rightarrow> nat option" where
  "status (Error m) = None"
| "status (RequestError st m) = Some st"

subsection \<open>String methods\<close>

definition startsWith :: "string \<Rightarrow> string \<Rightarrow> bool" where
  "startsWith s p = (take (length p) s = p)"

text \<open>\<open>s.slice(n)\<close> and \<open>s.substring(n)\<close> for an index \<open>n \<ge> 0\<close>.\<close>

definition slice :: "string \<Rightarrow> nat \<Rightarrow> string" where
  "slice s n = drop n s"

text \<open>\<open>s.substring(a, b)\<close>: the arguments are swapped when \<open>a > b\<close> and clamped to the length.\<close>

definition substring :: "string \<Rightarrow> nat \<Rightarrow> nat \<Rightarrow> string" where
  "substring s a b = (let lo = min a b; hi = max a b in take (hi - lo) (drop lo s))"

text \<open>\<open>s.indexOf(c)\<close> for a one-character pattern: the first position of \<open>c\<close>, or \<open>-1\<close>.\<close>

fun indexOf :: "string \<Rightarrow> char \<Rightarrow> int" where
  "indexOf [] c = - 1"
| "indexOf (x # xs) c =
     (if x = c then 0
      else (let i = indexOf xs c in if i = - 1 then - 1 else i + 1))"

text \<open>
  \<open>s.split(c)\<close> for a one-character separator: the pieces between the occurrences of
  \<open>c\<close>; the empty string gives one empty piece, so the result is never empty.
\<close>

fun split :: "string \<Rightarrow> char \<Rightarrow> string list" where
  "split [] c = [[]]"
| "split (x # xs) c =
     (if x = c then [] # split xs c
      else (case split xs c of
              p # ps \<Rightarrow> (x # p) # ps
            | [] \<Rightarrow> [[x]]))"

text \<open>\<open>parts[i]\<close>: \<open>undefined\<close> when \<open>i\<close> is out of range.\<close>

definition at_index :: "'a list \<Rightarrow> nat \<Rightarrow> 'a option" where
  "at_index xs i = (if i < length xs then Some (xs ! i) else None)"

subsection \<open>Numbers\<close>

text \<open>
  The Numbers that the version code computes are integers, infinities and \<open>NaN\<close>:
  \<open>Fin n\<close> is the double whose value is the integer \<open>n\<close>, for the integers that are
  doubles (\<open>representable\<close> below); the code builds its Numbers with \<open>parseInt\<close>, \<open>+\<close>
  and \<open>-\<close>, which give no other. Minus zero is not told from zero: the code prints both
  as \<open>0\<close>, finds them equal and falsy, and divides by neither.
\<close>

datatype number = NaN | Fin int | PosInfinity | NegInfinity

text \<open>The number of binary digits of \<open>n\<close>.\<close>

fun bitLength :: "nat \<Rightarrow> nat" where
  "bitLength n = (if n = 0 then 0 else Suc (bitLength (n div 2)))"

declare bitLength.simps [simp del]

text \<open>
  The Number value for an integer \<open>x\<close>: the double nearest to \<open>x\<close>, the one with the even
  significand when two are equally near, and an infinity when that double would need
  more than 1024 binary digits. A double has 53 significant binary digits: \<open>x\<close> keeps
  its 53 leading digits \<open>q\<close>, rounded by the digits \<open>r\<close> that follow them.
\<close>

definition numberOf :: "int \<Rightarrow> number" where
  "numberOf x =
     (let m = nat \<bar>x\<bar>;
          e = bitLength m - 53;
          q = m div 2 ^ e;
          r = m mod 2 ^ e;
          q' = (if 2 ^ e < 2 * r \<or> (2 * r = 2 ^ e \<and> odd q) then q + 1 else q);
          y = q' * 2 ^ e
      in if 1024 < bitLength y then (if x < 0 then NegInfinity else PosInfinity)
         else Fin (if x < 0 then - int y else int y))"

text \<open>\<open>x + y\<close> and \<open>x - y\<close> for Numbers: the Number value for the exact result.\<close>

fun number_add :: "number \<Rightarrow> number \<Rightarrow> number" where
  "number_add (Fin a) (Fin b) = numberOf (a + b)"
| "number_add NaN y = NaN"
| "number_add x NaN = NaN"
| "number_add PosInfinity NegInfinity = NaN"
| "number_add NegInfinity PosInfinity = NaN"
| "number_add PosInfinity y = PosInfinity"
| "number_add x PosInfinity = PosInfinity"
| "number_add NegInfinity y = NegInfinity"
| "number_add x NegInfinity = NegInfinity"

fun number_sub :: "number \<Rightarrow> number \<Rightarrow> number" where
  "number_sub (Fin a) (Fin b) = numberOf (a - b)"
| "number_sub NaN y = NaN"
| "number_sub x NaN = NaN"
| "number_sub PosInfinity PosInfinity = NaN"
| "number_sub NegInfinity NegInfinity = NaN"
| "number_sub PosInfinity y = PosInfinity"
| "number_sub x PosInfinity = NegInfinity"
| "number_sub NegInfinity y = NegInfinity"
| "number_sub x NegInfinity = PosInfinity"

text \<open>\<open>x !== y\<close> for Numbers: \<open>NaN\<close> differs from every Number, itself included.\<close>

definition strictNotEqual :: "number \<Rightarrow> number \<Rightarrow> bool" where
  "strictNotEqual x y = (x = NaN \<or> y = NaN \<or> x \<noteq> y)"

subsection \<open>\<open>parseInt\<close> and printing\<close>

definition isStrWhiteSpace :: "char \<Rightarrow> bool" where
  "isStrWhiteSpace c =
     (c \<in> set [CHR 0x09, CHR 0x0A, CHR 0x0B, CHR 0x0C, CHR 0x0D, CHR 0x20, CHR 0xA0])"

text \<open>The value of a character as a digit (36 when it is none).\<close>

definition digitValue :: "char \<Rightarrow> nat" where
  "digitValue c =
     (let n = (of_char c :: nat) in
      if 48 \<le> n \<and> n \<le> 57 then n - 48
      else if 97 \<le> n \<and> n \<le> 122 then n - 87
      else if 65 \<le> n \<and> n \<le> 90 then n - 55
      else 36)"

definition radixValue :: "nat \<Rightarrow> string \<Rightarrow> nat" where
  "radixValue r z = foldl (\<lambda>acc c. acc * r + digitValue c) 0 z"

text \<open>
  \<open>parseInt(x)\<close> with no radix, as ECMAScript defines it: the argument is converted to a
  string (\<open>undefined\<close> gives \<open>"undefined"\<close>), leading white space is dropped, then a sign,
  then a \<open>0x\<close> or \<open>0X\<close> prefix (which selects radix 16); the longest run of digits of the
  radix is the value, and no digit at all gives \<open>NaN\<close>. The result is the Number value
  for the integer that the digits denote. (ECMAScript lets an implementation neglect the
  decimal digits after the twentieth; V8, the engine of Node.js, rounds the whole
  integer, and so does the model.)
\<close>

definition parseInt :: "string option \<Rightarrow> number" where
  "parseInt arg =
     (let inputString = (case arg of None \<Rightarrow> ''undefined'' | Some s \<Rightarrow> s);
          s1 = dropWhile isStrWhiteSpace inputString;
          sign = (if startsWith s1 ''-'' then - 1 else 1);
          s2 = (if startsWith s1 ''+'' \<or> startsWith s1 ''-'' then slice s1 1 else s1);
          hex = (startsWith s2 ''0x'' \<or> startsWith s2 ''0X'');
          r = (if hex then 16 else 10);
          s3 = (if hex then slice s2 2 else s2);
          z = takeWhile (\<lambda>c. digitValue c < r) s3
      in if z = [] then NaN else numberOf (sign * int (radixValue r z)))"

text \<open>\<open>x || 0\<close> for a Number \<open>x\<close>: \<open>NaN\<close> and zero are falsy.\<close>

definition or_zero :: "number \<Rightarrow> number" where
  "or_zero x = (if x = NaN \<or> x = Fin 0 then Fin 0 else x)"

definition digitChar :: "nat \<Rightarrow> char" where
  "digitChar d = ''0123456789'' ! d"

fun digitsOf :: "nat \<Rightarrow> string" where
  "digitsOf n =
     (if n < 10 then [digitChar n] else digitsOf (n div 10) @ [digitChar (n mod 10)])"

declare digitsOf.simps [simp del]

definition stripTrailingZeros :: "string \<Rightarrow> string" where
  "stripTrailingZeros ds = rev (dropWhile (\<lambda>c. c = CHR ''0'') (rev ds))"

text \<open>
  The decimal with the fewest significant digits among those whose Number value is the
  double \<open>v\<close>, and of these the nearest to \<open>v\<close>, the one with the even last digit when
  two are equally near (\<open>Number::toString\<close> of ECMAScript, in the form its note
  recommends). \<open>shortestFrom v k\<close> tries the multiples of \<open>10^k\<close> next to \<open>v\<close>, the one
  below and the one above, then those of \<open>10^(k-1)\<close>, and so on down to \<open>v\<close> itself.
\<close>

fun shortestFrom :: "nat \<Rightarrow> nat \<Rightarrow> nat" where
  "shortestFrom v 0 = v"
| "shortestFrom v (Suc k) =
     (let p = 10 ^ Suc k;
          lo = v div p * p;
          hi = lo + p;
          okLo = (numberOf (int lo) = Fin (int v));
          okHi = (numberOf (int hi) = Fin (int v))
      in if okLo \<and> okHi then
           (if v - lo < hi - v then lo
            else if hi - v < v - lo then hi
            else if even (v div p) then lo else hi)
         else if okLo then lo
         else if okHi then hi
         else shortestFrom v k)"

declare shortestFrom.simps [simp del]

definition shortest :: "nat \<Rightarrow> nat" where
  "shortest v = shortestFrom v (length (digitsOf v) - 1)"

text \<open>
  The string of a Number, as a template literal prints it: the digits of its shortest
  decimal when that is below \<open>10^21\<close>, and from there on exponent notation, the digits
  up to the last one that is not zero, with a point after the first if there are several,
  then \<open>e+\<close> and the exponent.
\<close>

definition numberToString :: "number \<Rightarrow> string" where
  "numberToString x =
     (case x of
        NaN \<Rightarrow> ''NaN''
      | PosInfinity \<Rightarrow> ''Infinity''
      | NegInfinity \<Rightarrow> ''-Infinity''
      | Fin n \<Rightarrow>
          (let c = shortest (nat \<bar>n\<bar>);
               ds = digitsOf c;
               body =
                 (if int c < 10 ^ 21 then ds
                  else (let mantissa =
                              (case stripTrailingZeros ds of
                                 [] \<Rightarrow> []
                               | [d] \<Rightarrow> [d]
                               | d # rest \<Rightarrow> d # ''.'' @ rest)
                        in mantissa @ ''e+'' @ digitsOf (length ds - 1)))
           in if n < 0 then ''-'' @ body else body))"

subsection \<open>The two character classes of the prerelease pattern\<close>

definition isDigit :: "char \<Rightarrow> bool" where
  "isDigit c = (48 \<le> (of_char c :: nat) \<and> (of_char c :: nat) \<le> 57)"

definition isWordChar :: "char \<Rightarrow> bool" where
  "isWordChar c =
     (let n = (of_char c :: nat) in
      (48 \<le> n \<and> n \<le> 57) \<or> (65 \<le> n \<and> n \<le> 90) \<or> n = 95 \<or> (97 \<le> n \<and> n \<le> 122))"

text \<open>
  \<open>s.match(/^(\w+)\.(\d+)$/)\<close>: the two groups, or \<open>null\<close>. A dot is no word character, so
  the first group can only be the longest run of word characters at the start; the dot
  follows it and the digits run to the end of the string.
\<close>

definition match_word_dot_digits :: "string \<Rightarrow> (string \<times> string) option" where
  "match_word_dot_digits s =
     (let w = takeWhile isWordChar s; r = dropWhile isWordChar s in
      case r of
        [] \<Rightarrow> None
      | c # d \<Rightarrow>
          if w \<noteq> [] \<and> c = CHR ''.'' \<and> d \<noteq> [] \<and> list_all isDigit d then Some (w, d)
          else None)"

section \<open>utils.js: the version model\<close>

record version =
  major :: number
  minor :: number
  patch :: number
  prerelease :: "string option"

definition parseVersion :: "string \<Rightarrow> version" where
  "parseVersion v =
     (let cleanVersion = (if startsWith v ''v'' then slice v 1 else v);
          prereleaseIndex = indexOf cleanVersion CHR ''-'';
          versionPart =
            (if prereleaseIndex \<noteq> - 1 then substring cleanVersion 0 (nat prereleaseIndex)
             else cleanVersion);
          prereleasePart =
            (if prereleaseIndex \<noteq> - 1 then Some (slice cleanVersion (nat (prereleaseIndex + 1)))
             else None);
          parts = split versionPart CHR ''.''
      in \<lparr> major = or_zero (parseInt (at_index parts 0)),
           minor = or_zero (parseInt (at_index parts 1)),
           patch = or_zero (parseInt (at_index parts 2)),
           prerelease = prereleasePart \<rparr>)"

text \<open>\<open>if (prerelease)\<close>: a string is truthy when it is neither \<open>null\<close> nor empty.\<close>

definition formatVersion :: "number \<Rightarrow> number \<Rightarrow> number \<Rightarrow> string option \<Rightarrow> string" where
  "formatVersion ma mi pa pre =
     (let v = ''v'' @ numberToString ma @ ''.'' @ numberToString mi @ ''.'' @ numberToString pa
      in case pre of
           None \<Rightarrow> v
         | Some p \<Rightarrow> if p \<noteq> [] then v @ ''-'' @ p else v)"

section \<open>version.js: the version calculator\<close>

text \<open>The inputs of the action that the modelled code reads.\<close>

record inputs =
  prereleaseSuffix :: string
  prereleaseNumber :: string
  baseRelease :: bool
  copyAssets :: bool
  updatePackageJson :: bool
  packageJsonPath :: string

text \<open>The configuration that SETUP.md shows.\<close>

definition example_inputs :: inputs where
  "example_inputs =
     \<lparr> prereleaseSuffix = ''beta'', prereleaseNumber = ''1'', baseRelease = True,
       copyAssets = True, updatePackageJson = True, packageJsonPath = ''package.json'' \<rparr>"

definition calculateVersion :: "string \<Rightarrow> string \<Rightarrow> bool \<Rightarrow> inputs \<Rightarrow> js_error + string" where
  "calculateVersion latestVersion releaseType isPrerelease inp =
     (let current = parseVersion latestVersion;
          triple =
            (if releaseType = ''major'' then
               Inr (number_add (major current) (Fin 1), Fin 0, Fin 0)
             else if releaseType = ''minor'' then
               Inr (major current, number_add (minor current) (Fin 1), Fin 0)
             else if releaseType = ''patch'' then
               Inr (major current, minor current, number_add (patch current) (Fin 1))
             else Inl (Error (''Invalid release type: '' @ releaseType)))
      in case triple of
           Inl e \<Rightarrow> Inl e
         | Inr (ma, mi, pa) \<Rightarrow>
             Inr (formatVersion ma mi pa
                    (if isPrerelease
                     then Some (prereleaseSuffix inp @ ''.'' @ prereleaseNumber inp)
                     else None)))"

text \<open>The object \<open>{suffix, number}\<close> that \<open>parseExistingPrerelease\<close> returns, or \<open>null\<close>.\<close>

record existing_prerelease =
  suffix :: string
  number :: number

definition parseExistingPrerelease :: "string \<Rightarrow> existing_prerelease option" where
  "parseExistingPrerelease v =
     (let parts = split v CHR ''-'' in
      if length parts < 2 then None
      else (case match_word_dot_digits (parts ! 1) of
              Some (w, d) \<Rightarrow> Some \<lparr> suffix = w, number = parseInt (Some d) \<rparr>
            | None \<Rightarrow> None))"

definition incrementPrerelease :: "string \<Rightarrow> inputs \<Rightarrow> string" where
  "incrementPrerelease v inp =
     (case parseExistingPrerelease v of
        Some existing \<Rightarrow>
          if suffix existing = prereleaseSuffix inp then
            (let versionBase = hd (split v CHR ''-'')
             in versionBase @ ''-'' @ prereleaseSuffix inp @ ''.''
                @ numberToString (number_add (number existing) (Fin 1)))
          else v @ ''-'' @ prereleaseSuffix inp @ ''.'' @ prereleaseNumber inp
      | None \<Rightarrow> v @ ''-'' @ prereleaseSuffix inp @ ''.'' @ prereleaseNumber inp)"

text \<open>\<open>if (x)\<close> for a string or \<open>null\<close>: the empty string and \<open>null\<close> are falsy.\<close>

definition truthy :: "string option \<Rightarrow> bool" where
  "truthy p = (case p of None \<Rightarrow> False | Some s \<Rightarrow> s \<noteq> [])"

text \<open>
  \<open>compareVersions\<close> calls \<open>String.prototype.localeCompare\<close>, a function of the host whose
  result depends on its locale data; the model takes it as the parameter \<open>localeCompare\<close>.
\<close>

definition compareVersions ::
  "(string \<Rightarrow> string \<Rightarrow> number) \<Rightarrow> string \<Rightarrow> string \<Rightarrow> number" where
  "compareVersions localeCompare version1 version2 =
     (let v1 = parseVersion version1; v2 = parseVersion version2 in
      if strictNotEqual (major v1) (major v2) then number_sub (major v1) (major v2)
      else if strictNotEqual (minor v1) (minor v2) then number_sub (minor v1) (minor v2)
      else if strictNotEqual (patch v1) (patch v2) then number_sub (patch v1) (patch v2)
      else if truthy (prerelease v1) \<and> truthy (prerelease v2) then
        localeCompare (the (prerelease v1)) (the (prerelease v2))
      else if truthy (prerelease v1) then Fin (- 1)
      else if truthy (prerelease v2) then Fin 1
      else Fin 0)"

text \<open>
  A comparison a host may use for \<open>localeCompare\<close>: code unit by code unit, a proper
  prefix first, with results \<open>-1\<close>, \<open>0\<close> and \<open>1\<close>.
\<close>

fun codeUnitCompare :: "string \<Rightarrow> string \<Rightarrow> number" where
  "codeUnitCompare [] [] = Fin 0"
| "codeUnitCompare [] (y # ys) = Fin (- 1)"
| "codeUnitCompare (x # xs) [] = Fin 1"
| "codeUnitCompare (x # xs) (y # ys) =
     (if (of_char x :: nat) < of_char y then Fin (- 1)
      else if (of_char y :: nat) < of_char x then Fin 1
      else codeUnitCompare xs ys)"

text \<open>
  The order of Numbers, \<open>x < y\<close>, and the order on the triples that the claims about
  \<open>compareVersions\<close> speak of.
\<close>

fun number_less :: "number \<Rightarrow> number \<Rightarrow> bool" where
  "number_less (Fin a) (Fin b) = (a < b)"
| "number_less NaN y = False"
| "number_less x NaN = False"
| "number_less x NegInfinity = False"
| "number_less PosInfinity y = False"
| "number_less NegInfinity y = True"
| "number_less x PosInfinity = True"

definition same_triple :: "version \<Rightarrow> version \<Rightarrow> bool" where
  "same_triple a b = (major a = major b \<and> minor a = minor b \<and> patch a = patch b)"

definition triple_less :: "version \<Rightarrow> version \<Rightarrow> bool" where
  "triple_less a b =
     (number_less (major a) (major b)
      \<or> (major a = major b
          \<and> (number_less (minor a) (minor b)
              \<or> (minor a = minor b \<and> number_less (patch a) (patch b)))))"

section \<open>Effects: the host, the trace and exceptions\<close>

text \<open>
  main.js and release.js act on the outside: they run git through \<open>execSync\<close>, call the REST
  client \<open>octokit.rest.repos\<close>, and report through \<open>core.info\<close>, \<open>core.warning\<close>, \<open>core.error\<close>,
  \<open>core.setOutput\<close> and \<open>core.setFailed\<close>. The outside is a value of a type \<open>'w\<close>; what
  the calls do to it and what they return is given by a \<open>host\<close>, a parameter of the model, so
  that a theorem about every host covers every way in which a call can fail. Every call
  and every report is appended to a trace.
\<close>

text \<open>The command lines handed to \<open>execSync\<close> in the modelled code.\<close>

datatype command =
    GitTagDelete string             \<comment> \<open>\<open>git tag -d "<name>"\<close>\<close>
  | GitPushDeleteTag string         \<comment> \<open>\<open>git push origin ":refs/tags/<name>"\<close>\<close>
  | GitTagAnnotate string string    \<comment> \<open>\<open>git tag -a "<name>" -m "<message>"\<close>\<close>
  | GitPushHead                     \<comment> \<open>\<open>git push origin HEAD\<close>\<close>
  | GitPushTag string               \<comment> \<open>\<open>git push origin "<name>"\<close>\<close>

text \<open>The fields of a release asset and of a release that the code reads.\<close>

record asset =
  asset_id :: nat
  asset_name :: string
  asset_content_type :: string
  asset_size :: nat

record release =
  rel_id :: nat
  rel_name :: string
  rel_body :: string
  rel_html_url :: string
  rel_assets :: "asset list option"   \<comment> \<open>\<open>None\<close>: the field is undefined\<close>

record release_request =
  req_tag_name :: string
  req_name :: string
  req_body :: string
  req_draft :: bool
  req_prerelease :: bool

record upload_request =
  up_release_id :: nat
  up_name :: string
  up_data :: string
  up_content_type :: string
  up_content_length :: nat

text \<open>
  The steps of \<open>run\<close> that are functions of main.js and version.js which no claim is
  about; the model leaves what they do to the host.
\<close>

datatype step =
    UpdatePackageJson string string   \<comment> \<open>\<open>updatePackageJson(packageJsonPath, newVersion)\<close>\<close>
  | SetupNodeAndDependencies
  | RunTests
  | RunBuild
  | ConfigureGit
  | CommitChanges string              \<comment> \<open>\<open>commitChanges(newVersion, inputs)\<close>\<close>

record 'w host =
  execSync :: "command \<Rightarrow> 'w \<Rightarrow> (js_error + unit) \<times> 'w"
  reposCreateRelease :: "release_request \<Rightarrow> 'w \<Rightarrow> (js_error + release) \<times> 'w"
  reposGetReleaseByTag :: "string \<Rightarrow> 'w \<Rightarrow> (js_error + release option) \<times> 'w"
  reposDeleteRelease :: "nat \<Rightarrow> 'w \<Rightarrow> (js_error + unit) \<times> 'w"
  reposGetReleaseAsset :: "nat \<Rightarrow> 'w \<Rightarrow> (js_error + string) \<times> 'w"
  reposUploadReleaseAsset :: "upload_request \<Rightarrow> 'w \<Rightarrow> (js_error + unit) \<times> 'w"
  getLatestVersion :: "'w \<Rightarrow> string \<times> 'w"
  generateReleaseNotes :: "string \<Rightarrow> string \<Rightarrow> 'w \<Rightarrow> string \<times> 'w"
  performStep :: "step \<Rightarrow> 'w \<Rightarrow> (js_error + unit) \<times> 'w"

datatype event =
    Info string                      \<comment> \<open>\<open>core.info\<close>\<close>
  | Warning string                   \<comment> \<open>\<open>core.warning\<close>\<close>
  | ErrorLog string                  \<comment> \<open>\<open>core.error\<close>\<close>
  | SetOutput string string          \<comment> \<open>\<open>core.setOutput\<close>\<close>
  | SetFailed string                 \<comment> \<open>\<open>core.setFailed\<close>\<close>
  | Exec command                     \<comment> \<open>\<open>execSync\<close>\<close>
  | CreateRelease release_request    \<comment> \<open>\<open>octokit.rest.repos.createRelease\<close>\<close>
  | GetReleaseByTag string           \<comment> \<open>\<open>octokit.rest.repos.getReleaseByTag\<close>\<close>
  | DeleteRelease nat                \<comment> \<open>\<open>octokit.rest.repos.deleteRelease\<close>\<close>
  | GetReleaseAsset nat              \<comment> \<open>\<open>octokit.rest.repos.getReleaseAsset\<close>\<close>
  | UploadReleaseAsset upload_request   \<comment> \<open>\<open>octokit.rest.repos.uploadReleaseAsset\<close>\<close>
  | Step step
  | GetLatestVersion
  | GenerateReleaseNotes string string

record 'w state =
  world :: 'w
  trace :: "event list"

text \<open>
  A piece of code takes the state and gives the new state with either the value it
  returns (\<open>Inr\<close>) or the error it throws (\<open>Inl\<close>): what it did before throwing stays done.
\<close>

type_synonym ('a, 'w) action = "'w state \<Rightarrow> (js_error + 'a) \<times> 'w state"

definition ret :: "'a \<Rightarrow> ('a, 'w) action" where
  "ret x = (\<lambda>s. (Inr x, s))"

definition throw :: "js_error \<Rightarrow> ('a, 'w) action" where
  "throw e = (\<lambda>s. (Inl e, s))"

definition andThen :: "('a, 'w) action \<Rightarrow> ('a \<Rightarrow> ('b, 'w) action) \<Rightarrow> ('b, 'w) action" where
  "andThen m f = (\<lambda>s. case m s of (Inl e, s') \<Rightarrow> (Inl e, s') | (Inr x, s') \<Rightarrow> f x s')"

definition seq :: "('a, 'w) action \<Rightarrow> ('b, 'w) action \<Rightarrow> ('b, 'w) action" where
  "seq m n = andThen m (\<lambda>_. n)"

text \<open>\<open>try { m } catch (error) { h error }\<close>.\<close>

definition tryCatch :: "('a, 'w) action \<Rightarrow> (js_error \<Rightarrow> ('a, 'w) action) \<Rightarrow> ('a, 'w) action" where
  "tryCatch m h = (\<lambda>s. case m s of (Inl e, s') \<Rightarrow> h e s' | (Inr x, s') \<Rightarrow> (Inr x, s'))"

definition emit :: "event \<Rightarrow> (unit, 'w) action" where
  "emit e = (\<lambda>s. (Inr (), s \<lparr> trace := trace s @ [e] \<rparr>))"

text \<open>A call to the outside: the trace gets the call, the host says what it does.\<close>

definition call :: "event \<Rightarrow> ('w \<Rightarrow> (js_error + 'a) \<times> 'w) \<Rightarrow> ('a, 'w) action" where
  "call e operation =
     (\<lambda>s. case operation (world s) of (r, w') \<Rightarrow> (r, \<lparr> world = w', trace = trace s @ [e] \<rparr>))"

definition exec :: "'w host \<Rightarrow> command \<Rightarrow> (unit, 'w) action" where
  "exec h c = call (Exec c) (execSync h c)"

text \<open>A call that cannot throw.\<close>

definition ask :: "event \<Rightarrow> ('w \<Rightarrow> 'a \<times> 'w) \<Rightarrow> ('a, 'w) action" where
  "ask e operation = call e (\<lambda>w. case operation w of (x, w') \<Rightarrow> (Inr x, w'))"

definition info :: "string \<Rightarrow> (unit, 'w) action" where
  "info m = emit (Info m)"

definition warning :: "string \<Rightarrow> (unit, 'w) action" where
  "warning m = emit (Warning m)"

definition errorLog :: "string \<Rightarrow> (unit, 'w) action" where
  "errorLog m = emit (ErrorLog m)"

definition setOutput :: "string \<Rightarrow> string \<Rightarrow> (unit, 'w) action" where
  "setOutput k v = emit (SetOutput k v)"

definition setFailed :: "string \<Rightarrow> (unit, 'w) action" where
  "setFailed m = emit (SetFailed m)"

definition performed :: "'w host \<Rightarrow> step \<Rightarrow> (unit, 'w) action" where
  "performed h st = call (Step st) (performStep h st)"

text \<open>A value or an error computed without effect, used inside effectful code.\<close>

definition lift :: "js_error + 'a \<Rightarrow> ('a, 'w) action" where
  "lift r = (case r of Inl e \<Rightarrow> throw e | Inr x \<Rightarrow> ret x)"

section \<open>main.js: the tag step\<close>

text \<open>
  The texts of the log lines are those of the source without their pictographs
  (the trace is ASCII).
\<close>

definition createAndPushTag :: "'w host \<Rightarrow> string \<Rightarrow> (unit, 'w) action" where
  "createAndPushTag h newVersion =
     seq (info (''Creating and pushing tag: '' @ newVersion))
    (seq (tryCatch
            (seq (exec h (GitTagDelete newVersion))
                 (info (''Deleted existing local tag: '' @ newVersion)))
            (\<lambda>e. ret ()))
    (seq (tryCatch
            (seq (exec h (GitPushDeleteTag newVersion))
                 (info (''Deleted existing remote tag: '' @ newVersion)))
            (\<lambda>e. ret ()))
    (seq (exec h (GitTagAnnotate newVersion (''Release '' @ newVersion)))
    (seq (exec h GitPushHead)
         (exec h (GitPushTag newVersion))))))"

section \<open>release.js\<close>

definition createRelease ::
  "'w host \<Rightarrow> string \<Rightarrow> string \<Rightarrow> string \<Rightarrow> bool \<Rightarrow> (release, 'w) action" where
  "createRelease h tagName name body prereleaseFlag =
     tryCatch
       (seq (info (''Creating release: '' @ name))
            (let request = \<lparr> req_tag_name = tagName, req_name = name, req_body = body,
                             req_draft = False, req_prerelease = prereleaseFlag \<rparr>
             in call (CreateRelease request) (reposCreateRelease h request)))
       (\<lambda>error. seq (errorLog (''Failed to create release: '' @ message error)) (throw error))"

definition updateMajorVersionTag :: "'w host \<Rightarrow> string \<Rightarrow> string \<Rightarrow> (unit, 'w) action" where
  "updateMajorVersionTag h majorVersion fullVersion =
     tryCatch
       (seq (info (''Updating major version tag '' @ majorVersion @ '' to point to '' @ fullVersion))
       (seq (tryCatch (exec h (GitTagDelete majorVersion)) (\<lambda>e. ret ()))
       (seq (tryCatch (exec h (GitPushDeleteTag majorVersion)) (\<lambda>e. ret ()))
       (seq (exec h (GitTagAnnotate majorVersion (''Major version tag pointing to '' @ fullVersion)))
       (seq (exec h (GitPushTag majorVersion))
            (info (''Updated major version tag: '' @ majorVersion @ '' -> '' @ fullVersion)))))))
       (\<lambda>error. seq (warning (''Failed to update major version tag: '' @ message error))
                     (throw error))"

definition deleteMajorReleaseIfExists :: "'w host \<Rightarrow> string \<Rightarrow> (unit, 'w) action" where
  "deleteMajorReleaseIfExists h majorVersion =
     tryCatch
       (andThen (call (GetReleaseByTag majorVersion) (reposGetReleaseByTag h majorVersion))
          (\<lambda>existingRelease.
             case existingRelease of
               Some r \<Rightarrow>
                 seq (info (''Deleting existing major release: '' @ majorVersion))
                     (call (DeleteRelease (rel_id r)) (reposDeleteRelease h (rel_id r)))
             | None \<Rightarrow> ret ()))
       (\<lambda>error.
          if status error = Some 404
          then info (''Major release '' @ majorVersion @ '' doesn't exist, creating new one'')
          else warning (''Error checking for existing major release: '' @ message error))"

definition nl :: string where
  "nl = [CHR 0x0A]"

text \<open>Reading \<open>originalRelease.name\<close> throws a \<open>TypeError\<close> when \<open>originalRelease\<close> is \<open>null\<close>.\<close>

definition createMajorReleaseNotes ::
  "string \<Rightarrow> string \<Rightarrow> release option \<Rightarrow> js_error + string" where
  "createMajorReleaseNotes majorVersion fullVersion originalRelease =
     (case originalRelease of
        None \<Rightarrow> Inl (Error ''Cannot read properties of null (reading 'name')'')
      | Some r \<Rightarrow>
          Inr (''# '' @ majorVersion @ nl @ nl
               @ ''This major version tag points to the latest stable release: **''
               @ fullVersion @ ''**'' @ nl @ nl
               @ ''## Latest Release: '' @ rel_name r @ nl @ nl
               @ rel_body r @ nl @ nl
               @ ''---'' @ nl
               @ ''*This is an automatically generated major version release that tracks ''
               @ ''the latest stable release in the '' @ majorVersion @ ''.x series.*''))"

text \<open>The body of the loop \<open>for (const asset of sourceRelease.assets)\<close>, lines 146 to 173.\<close>

definition copyAsset :: "'w host \<Rightarrow> release \<Rightarrow> asset \<Rightarrow> (unit, 'w) action" where
  "copyAsset h targetRelease a =
     tryCatch
       (andThen (call (GetReleaseAsset (asset_id a)) (reposGetReleaseAsset h (asset_id a)))
          (\<lambda>assetData.
             let upload = \<lparr> up_release_id = rel_id targetRelease, up_name = asset_name a,
                            up_data = assetData, up_content_type = asset_content_type a,
                            up_content_length = asset_size a \<rparr>
             in seq (call (UploadReleaseAsset upload) (reposUploadReleaseAsset h upload))
                    (info (''Copied asset: '' @ asset_name a))))
       (\<lambda>error. warning (''Failed to copy asset '' @ asset_name a @ '': '' @ message error))"

text \<open>The loop, asset by asset.\<close>

fun copyEachAsset :: "'w host \<Rightarrow> release \<Rightarrow> asset list \<Rightarrow> (unit, 'w) action" where
  "copyEachAsset h targetRelease [] = ret ()"
| "copyEachAsset h targetRelease (a # rest) =
     seq (copyAsset h targetRelease a) (copyEachAsset h targetRelease rest)"

definition copyReleaseAssets :: "'w host \<Rightarrow> release \<Rightarrow> release \<Rightarrow> (unit, 'w) action" where
  "copyReleaseAssets h sourceRelease targetRelease =
     tryCatch
       (case rel_assets sourceRelease of
          None \<Rightarrow> info ''No assets to copy from source release''
        | Some as \<Rightarrow>
            if length as = 0 then info ''No assets to copy from source release''
            else seq (info (''Copying '' @ numberToString (Fin (int (length as)))
                            @ '' assets to major release''))
                     (copyEachAsset h targetRelease as))
       (\<lambda>error. warning (''Failed to copy release assets: '' @ message error))"

text \<open>The \<open>try\<close> block of \<open>createMajorRelease\<close> (lines 32 to 59).\<close>

definition createMajorRelease_try ::
  "'w host \<Rightarrow> string \<Rightarrow> string \<Rightarrow> release option \<Rightarrow> bool \<Rightarrow> (release option, 'w) action" where
  "createMajorRelease_try h majorVersion fullVersion originalRelease copy =
     seq (info (''Creating major version release: '' @ majorVersion))
    (seq (updateMajorVersionTag h majorVersion fullVersion)
    (seq (deleteMajorReleaseIfExists h majorVersion)
    (andThen (lift (createMajorReleaseNotes majorVersion fullVersion originalRelease))
       (\<lambda>releaseNotes.
          let request = \<lparr> req_tag_name = majorVersion, req_name = majorVersion,
                           req_body = releaseNotes, req_draft = False,
                           req_prerelease = False \<rparr>
          in andThen (call (CreateRelease request) (reposCreateRelease h request))
               (\<lambda>majorRelease.
                  seq (case originalRelease of
                         Some original \<Rightarrow>
                           if copy then copyReleaseAssets h original majorRelease else ret ()
                       | None \<Rightarrow> ret ())
                      (ret (Some majorRelease)))))))"

definition createMajorRelease ::
  "'w host \<Rightarrow> string \<Rightarrow> string \<Rightarrow> release option \<Rightarrow> bool \<Rightarrow> (release option, 'w) action" where
  "createMajorRelease h majorVersion fullVersion originalRelease copy =
     tryCatch
       (createMajorRelease_try h majorVersion fullVersion originalRelease copy)
       (\<lambda>error. seq (warning (''Failed to create major version release: '' @ message error))
                     (ret None))"

section \<open>main.js: \<open>run\<close>\<close>

text \<open>
  \<open>run\<close> is modelled from the point where \<open>parseLabels\<close> has returned \<open>releaseType\<close> and
  \<open>isPrerelease\<close> (line 58 on); they are its parameters. Its \<open>try\<close> block is written in two
  parts: \<open>run_release\<close>, lines 65 to 119, which ends with the outputs of the release of the
  new version, and \<open>run_major\<close>, lines 121 to 137.
\<close>

definition run_release ::
  "'w host \<Rightarrow> inputs \<Rightarrow> string \<Rightarrow> bool \<Rightarrow> (string \<times> release, 'w) action" where
  "run_release h inp releaseType isPrerelease =
     seq (info (''Release type: '' @ releaseType @ (if isPrerelease then '' (prerelease)'' else [])))
    (andThen (ask GetLatestVersion (getLatestVersion h)) (\<lambda>latestVersion.
     seq (info (''Latest version: '' @ latestVersion))
    (andThen (lift (calculateVersion latestVersion releaseType isPrerelease inp)) (\<lambda>newVersion.
     seq (info (''New version: '' @ newVersion))
    (seq (if updatePackageJson inp
          then performed h (UpdatePackageJson (packageJsonPath inp) newVersion) else ret ())
    (seq (performed h SetupNodeAndDependencies)
    (seq (performed h RunTests)
    (seq (performed h RunBuild)
    (seq (performed h ConfigureGit)
    (seq (performed h (CommitChanges newVersion))
    (seq (createAndPushTag h newVersion)
    (andThen (ask (GenerateReleaseNotes latestVersion newVersion)
                (generateReleaseNotes h latestVersion newVersion)) (\<lambda>releaseNotes.
     andThen (createRelease h newVersion newVersion releaseNotes isPrerelease) (\<lambda>release.
     seq (info (''Created release: '' @ rel_html_url release))
    (seq (setOutput ''released'' ''true'')
    (seq (setOutput ''version'' newVersion)
    (seq (setOutput ''previous-version'' latestVersion)
    (seq (setOutput ''release-type'' releaseType)
    (seq (setOutput ''is-prerelease'' (if isPrerelease then ''true'' else ''false''))
    (seq (setOutput ''release-url'' (rel_html_url release))
    (seq (setOutput ''release-id'' (numberToString (Fin (int (rel_id release)))))
    (seq (setOutput ''tag-name'' newVersion)
         (ret (newVersion, release))))))))))))))))))))))))"

definition run_major ::
  "'w host \<Rightarrow> inputs \<Rightarrow> bool \<Rightarrow> string \<Rightarrow> release \<Rightarrow> (unit, 'w) action" where
  "run_major h inp isPrerelease newVersion release =
     (if baseRelease inp \<and> \<not> isPrerelease then
        (let majorVersion = hd (split newVersion CHR ''.'') in
         andThen (createMajorRelease h majorVersion newVersion (Some release) (copyAssets inp))
           (\<lambda>majorRelease.
              case majorRelease of
                Some mr \<Rightarrow>
                  seq (info (''Created major version release: '' @ rel_html_url mr))
                 (seq (setOutput ''major-version'' majorVersion)
                      (setOutput ''major-release-url'' (rel_html_url mr)))
              | None \<Rightarrow> ret ()))
      else ret ())"

definition run :: "'w host \<Rightarrow> inputs \<Rightarrow> string \<Rightarrow> bool \<Rightarrow> (unit, 'w) action" where
  "run h inp releaseType isPrerelease =
     tryCatch
       (if releaseType = ''none'' then
          seq (info ''No release labels found. Skipping release creation.'')
         (seq (setOutput ''released'' ''false'')
              (setOutput ''release-type'' ''none''))
        else
          andThen (run_release h inp releaseType isPrerelease) (\<lambda>(newVersion, release).
          seq (run_major h inp isPrerelease newVersion release)
              (info ''Semantic release completed successfully!'')))
       (\<lambda>error. seq (errorLog (''Action failed: '' @ message error))
                     (setFailed (message error)))"

section \<open>The git repository\<close>

text \<open>
  What the five git commands do to the tags, as git documents them: a tag name stands for
  at most one commit in the repository and at most one at origin; deleting a tag that is
  not there fails, and so does creating one that is there; a push of the branch succeeds
  when origin's branch is at HEAD or at an ancestor of it; a push of a tag is refused when
  origin has a tag of that name. A command that fails changes nothing.
\<close>

type_synonym commit = nat

record repository =
  head_commit :: commit
  ancestors :: "commit list"               \<comment> \<open>the commits HEAD descends from\<close>
  remote_branch :: commit                  \<comment> \<open>the branch at origin\<close>
  local_tags :: "(string \<times> commit) list"
  remote_tags :: "(string \<times> commit) list"

datatype git_failure =
    TagNotFound | RemoteRefMissing | TagAlreadyExists | NonFastForward | NoSuchRef
  | RemoteTagExists

fun git_message :: "git_failure \<Rightarrow> string" where
  "git_message TagNotFound = ''error: tag not found''"
| "git_message RemoteRefMissing = ''error: unable to delete: remote ref does not exist''"
| "git_message TagAlreadyExists = ''fatal: tag already exists''"
| "git_message NonFastForward = ''! [rejected] (non-fast-forward)''"
| "git_message NoSuchRef = ''error: src refspec does not match any''"
| "git_message RemoteTagExists = ''! [rejected] (already exists)''"

definition command_failed :: "git_failure \<Rightarrow> js_error" where
  "command_failed f = Error (''Command failed: '' @ git_message f)"

definition without_tag :: "string \<Rightarrow> (string \<times> commit) list \<Rightarrow> (string \<times> commit) list" where
  "without_tag n ts = filter (\<lambda>t. fst t \<noteq> n) ts"

definition tags_named :: "string \<Rightarrow> (string \<times> commit) list \<Rightarrow> (string \<times> commit) list" where
  "tags_named n ts = filter (\<lambda>t. fst t = n) ts"

definition can_push_head :: "repository \<Rightarrow> bool" where
  "can_push_head r = (remote_branch r = head_commit r \<or> remote_branch r \<in> set (ancestors r))"

fun git :: "command \<Rightarrow> repository \<Rightarrow> (js_error + unit) \<times> repository" where
  "git (GitTagDelete n) r =
     (case map_of (local_tags r) n of
        None \<Rightarrow> (Inl (command_failed TagNotFound), r)
      | Some c \<Rightarrow> (Inr (), r \<lparr> local_tags := without_tag n (local_tags r) \<rparr>))"
| "git (GitPushDeleteTag n) r =
     (case map_of (remote_tags r) n of
        None \<Rightarrow> (Inl (command_failed RemoteRefMissing), r)
      | Some c \<Rightarrow> (Inr (), r \<lparr> remote_tags := without_tag n (remote_tags r) \<rparr>))"
| "git (GitTagAnnotate n m) r =
     (case map_of (local_tags r) n of
        Some c \<Rightarrow> (Inl (command_failed TagAlreadyExists), r)
      | None \<Rightarrow> (Inr (), r \<lparr> local_tags := (n, head_commit r) # local_tags r \<rparr>))"
| "git GitPushHead r =
     (if can_push_head r then (Inr (), r \<lparr> remote_branch := head_commit r \<rparr>)
      else (Inl (command_failed NonFastForward), r))"
| "git (GitPushTag n) r =
     (case map_of (local_tags r) n of
        None \<Rightarrow> (Inl (command_failed NoSuchRef), r)
      | Some c \<Rightarrow>
          (case map_of (remote_tags r) n of
             Some c' \<Rightarrow> (Inl (command_failed RemoteTagExists), r)
           | None \<Rightarrow> (Inr (), r \<lparr> remote_tags := (n, c) # remote_tags r \<rparr>)))"

section \<open>A repository with its release service\<close>

text \<open>
  A concrete outside for the git commands: the repository, and of the release service
  what an example needs, the number of REST calls it still accepts and the contents of
  the assets it stores.
\<close>

record outside =
  repo :: repository
  calls_left :: nat
  asset_contents :: "(nat \<times> string) list"

definition execGit :: "command \<Rightarrow> outside \<Rightarrow> (js_error + unit) \<times> outside" where
  "execGit c w = (case git c (repo w) of (r, repo') \<Rightarrow> (r, w \<lparr> repo := repo' \<rparr>))"

text \<open>A REST call: refused with status 403 when no call is left, else counted.\<close>

definition rest_call ::
  "(outside \<Rightarrow> js_error + 'a) \<Rightarrow> outside \<Rightarrow> (js_error + 'a) \<times> outside" where
  "rest_call answer w =
     (if calls_left w = 0 then (Inl (RequestError 403 ''API rate limit exceeded''), w)
      else (answer w, w \<lparr> calls_left := calls_left w - 1 \<rparr>))"

text \<open>
  An example host: git as above; a service that creates releases without assets, has no
  release yet for any tag, and hands out the assets it stores; \<open>getLatestVersion\<close> is the
  first tag with a dot in its name, \<open>generateReleaseNotes\<close> the text without a change log,
  and the other steps of \<open>run\<close> do nothing.
\<close>

definition example_host :: "outside host" where
  "example_host =
     \<lparr> execSync = execGit,
       reposCreateRelease = (\<lambda>request. rest_call (\<lambda>w.
          Inr \<lparr> rel_id = calls_left w, rel_name = req_name request,
                rel_body = req_body request,
                rel_html_url = ''https://github.com/owner/repo/releases/tag/'' @ req_tag_name request,
                rel_assets = Some [] \<rparr>)),
       reposGetReleaseByTag = (\<lambda>tag. rest_call (\<lambda>w. Inl (RequestError 404 ''Not Found''))),
       reposDeleteRelease = (\<lambda>i. rest_call (\<lambda>w. Inl (RequestError 404 ''Not Found''))),
       reposGetReleaseAsset = (\<lambda>i. rest_call (\<lambda>w.
          case map_of (asset_contents w) i of
            None \<Rightarrow> Inl (RequestError 404 ''Not Found'')
          | Some d \<Rightarrow> Inr d)),
       reposUploadReleaseAsset = (\<lambda>upload. rest_call (\<lambda>w. Inr ())),
       getLatestVersion = (\<lambda>w.
          (case filter (\<lambda>t. CHR ''.'' \<in> set (fst t)) (local_tags (repo w)) of
             [] \<Rightarrow> ''v0.0.0''
           | t # ts \<Rightarrow> fst t, w)),
       generateReleaseNotes = (\<lambda>latestVersion newVersion w. (''Release '' @ newVersion, w)),
       performStep = (\<lambda>st w. (Inr (), w)) \<rparr>"

text \<open>
  An example repository: HEAD is commit 5, origin's branch is at its parent 4, and the tag
  \<open>v1.2.4\<close> is left from a run that created it at commit 4 and did not push it.
\<close>

definition example_outside :: outside where
  "example_outside =
     \<lparr> repo = \<lparr> head_commit = 5, ancestors = [4, 3], remote_branch = 4,
                local_tags = [(''v1.2.4'', 4), (''v1.2.3'', 3), (''v1'', 3)],
                remote_tags = [(''v1.2.3'', 3), (''v1'', 3)] \<rparr>,
       calls_left = 10,
       asset_contents = [(8, ''binary'')] \<rparr>"

text \<open>
  Releases for the examples: the release of \<open>v1.2.5\<close> as the example host creates it, the
  same with two assets, of which the service stores only the second, and a release of
  \<open>v1\<close>.
\<close>

definition example_release :: release where
  "example_release =
     \<lparr> rel_id = 2, rel_name = ''v1.2.5'', rel_body = ''Release v1.2.5'',
       rel_html_url = ''https://github.com/owner/repo/releases/tag/v1.2.5'',
       rel_assets = Some [] \<rparr>"

definition example_release_with_assets :: release where
  "example_release_with_assets =
     example_release \<lparr> rel_assets := Some
       [\<lparr> asset_id = 7, asset_name = ''a.zip'', asset_content_type = ''application/zip'',
          asset_size = 3 \<rparr>,
        \<lparr> asset_id = 8, asset_name = ''b.zip'', asset_content_type = ''application/zip'',
          asset_size = 6 \<rparr>] \<rparr>"

definition example_major_release :: release where
  "example_major_release =
     \<lparr> rel_id = 1, rel_name = ''v1'', rel_body = ''# v1'',
       rel_html_url = ''https://github.com/owner/repo/releases/tag/v1'',
       rel_assets = Some [] \<rparr>"

text \<open>The example host on a machine where git cannot be run.\<close>

definition host_without_git :: "outside host" where
  "host_without_git =
     example_host \<lparr> execSync := (\<lambda>c w. (Inl (Error ''Command failed: git: not found''), w)) \<rparr>"

definition start :: "'w \<Rightarrow> 'w state" where
  "start w = \<lparr> world = w, trace = [] \<rparr>"

text \<open>The repository after the tag step for the name \<open>n\<close>.\<close>

definition retagged :: "string \<Rightarrow> repository \<Rightarrow> repository" where
  "retagged n r =
     (if can_push_head r then
        r \<lparr> local_tags := (n, head_commit r) # without_tag n (local_tags r),
            remote_tags := (n, head_commit r) # without_tag n (remote_tags r),
            remote_branch := head_commit r \<rparr>
      else
        r \<lparr> local_tags := (n, head_commit r) # without_tag n (local_tags r),
            remote_tags := without_tag n (remote_tags r) \<rparr>)"

section \<open>Reading the trace\<close>

text \<open>The events that a piece of code adds to the trace when it starts in \<open>s\<close>.\<close>

definition events_of :: "('a, 'w) action \<Rightarrow> 'w state \<Rightarrow> event list" where
  "events_of m s = drop (length (trace s)) (trace (snd (m s)))"

text \<open>
  The name of the tag that an event deletes, creates or pushes, or of the tag for which
  it creates a release.
\<close>

fun written_tag :: "event \<Rightarrow> string option" where
  "written_tag (Exec (GitTagDelete n)) = Some n"
| "written_tag (Exec (GitPushDeleteTag n)) = Some n"
| "written_tag (Exec (GitTagAnnotate n m)) = Some n"
| "written_tag (Exec (GitPushTag n)) = Some n"
| "written_tag (CreateRelease request) = Some (req_tag_name request)"
| "written_tag e = None"

text \<open>The events that change a release given by its id.\<close>

fun changes_release :: "event \<Rightarrow> bool" where
  "changes_release (DeleteRelease i) = True"
| "changes_release (UploadReleaseAsset u) = True"
| "changes_release e = False"

text \<open>
  A major-tracking name is the text of a version before its first dot (line 123 of
  main.js), so it has no dot. An event leaves the major-tracking tags and releases alone
  when it changes no release by its id and the tag it writes, if any, has a dot.
\<close>

definition leaves_major_alone :: "event \<Rightarrow> bool" where
  "leaves_major_alone e =
     (\<not> changes_release e
      \<and> (case written_tag e of None \<Rightarrow> True | Some n \<Rightarrow> CHR ''.'' \<in> set n))"

fun fetched_asset :: "event \<Rightarrow> nat option" where
  "fetched_asset (GetReleaseAsset i) = Some i"
| "fetched_asset e = None"

text \<open>
  The request that uploads the contents \<open>d\<close> of the asset \<open>a\<close> to the release \<open>t\<close>
  (lines 158 to 168 of release.js).
\<close>

definition upload_of :: "release \<Rightarrow> asset \<Rightarrow> string \<Rightarrow> upload_request" where
  "upload_of t a d =
     \<lparr> up_release_id = rel_id t, up_name = asset_name a, up_data = d,
       up_content_type = asset_content_type a, up_content_length = asset_size a \<rparr>"

fun is_SetFailed :: "event \<Rightarrow> bool" where
  "is_SetFailed (SetFailed m) = True"
| "is_SetFailed e = False"

fun executed :: "event \<Rightarrow> command option" where
  "executed (Exec c) = Some c"
| "executed e = None"

text \<open>The commands among the events, in their order.\<close>

definition commands_of :: "event list \<Rightarrow> command list" where
  "commands_of es = List.map_filter executed es"

text \<open>Every event that the code adds to the trace satisfies \<open>P\<close>.\<close>

definition emits :: "(event \<Rightarrow> bool) \<Rightarrow> ('a, 'w) action \<Rightarrow> bool" where
  "emits P m = (\<forall>s. \<exists>es. trace (snd (m s)) = trace s @ es \<and> list_all P es)"

text \<open>The code throws nothing.\<close>

definition returns :: "('a, 'w) action \<Rightarrow> bool" where
  "returns m = (\<forall>s. \<exists>x. fst (m s) = Inr x)"

text \<open>The code has added \<open>e\<close> to the trace whenever it returns.\<close>

definition on_return :: "event \<Rightarrow> ('a, 'w) action \<Rightarrow> bool" where
  "on_return e m = (\<forall>s x. fst (m s) = Inr x \<longrightarrow> e \<in> set (events_of m s))"

text \<open>The integers that are Numbers, and the Numbers that are not negative.\<close>

definition representable :: "int \<Rightarrow> bool" where
  "representable n = (numberOf n = Fin n)"

fun nonNegative :: "number \<Rightarrow> bool" where
  "nonNegative (Fin n) = (0 \<le> n)"
| "nonNegative PosInfinity = True"
| "nonNegative x = False"

text \<open>A decimal digit that is none of the characters \<open>parseInt\<close> and \<open>parseVersion\<close> act on.\<close>

definition plainDigit :: "char \<Rightarrow> bool" where
  "plainDigit c = (digitValue c < 10 \<and> c \<noteq> CHR ''-'' \<and> c \<noteq> CHR ''.'' \<and> c \<noteq> CHR ''+''
     \<and> c \<noteq> CHR ''x'' \<and> c \<noteq> CHR ''X'' \<and> c \<noteq> CHR ''v'' \<and> \<not> isStrWhiteSpace c)"

section \<open>Properties\<close>

subsection \<open>Numbers\<close>

lemma bitLength_0 [simp]: "bitLength 0 = 0"
  by (simp add: bitLength.simps)

lemma bitLength_1 [simp]: "bitLength (Suc 0) = Suc 0"
  by (simp add: bitLength.simps [of "Suc 0"])

lemma bitLength_Bit0 [simp]: "bitLength (numeral (Num.Bit0 k)) = bitLength (numeral k) + 1"
  by (subst bitLength.simps) (simp add: numeral_Bit0 [of k, where ?'a = nat] del: arith_simps)

lemma bitLength_Bit1 [simp]: "bitLength (numeral (Num.Bit1 k)) = bitLength (numeral k) + 1"
  by (subst bitLength.simps) (simp add: numeral_Bit1 [of k, where ?'a = nat] del: arith_simps)

lemma bitLength_One [simp]: "bitLength 1 = 1"
  by (simp add: bitLength.simps [of 1] bitLength.simps [of 0])

lemma bitLength_upper: "n < 2 ^ bitLength n"
proof (induction n rule: bitLength.induct)
  case (1 n)
  show ?case
  proof (cases "n = 0")
    case True
    then show ?thesis by simp
  next
    case False
    with 1 have "n div 2 < 2 ^ bitLength (n div 2)" by simp
    then have "n < 2 * 2 ^ bitLength (n div 2)" by linarith
    with False show ?thesis by (simp add: bitLength.simps [of n])
  qed
qed

lemma bitLength_lower: "n \<noteq> 0 \<Longrightarrow> 2 ^ (bitLength n - 1) \<le> n"
proof (induction n rule: bitLength.induct)
  case (1 n)
  show ?case
  proof (cases "n div 2 = 0")
    case True
    with 1(2) have "n = 1" by linarith
    then show ?thesis by simp
  next
    case False
    with 1 have ih: "2 ^ (bitLength (n div 2) - 1) \<le> n div 2" by simp
    have pos: "bitLength (n div 2) \<noteq> 0"
      using False by (simp add: bitLength.simps [of "n div 2"])
    have "bitLength n - 1 = Suc (bitLength (n div 2) - 1)"
      using 1(2) pos by (simp add: bitLength.simps [of n])
    then have "(2::nat) ^ (bitLength n - 1) = 2 * 2 ^ (bitLength (n div 2) - 1)" by simp
    also have "\<dots> \<le> 2 * (n div 2)" using ih by simp
    also have "\<dots> \<le> n" by simp
    finally show ?thesis .
  qed
qed

lemma bitLength_le: "n < 2 ^ k \<Longrightarrow> bitLength n \<le> k"
proof (rule ccontr)
  assume n: "n < 2 ^ k" and "\<not> bitLength n \<le> k"
  then have k: "k \<le> bitLength n - 1" by simp
  have "n \<noteq> 0" using \<open>\<not> bitLength n \<le> k\<close> by (cases "n = 0") simp_all
  then have "2 ^ (bitLength n - 1) \<le> n" by (rule bitLength_lower)
  moreover have "(2::nat) ^ k \<le> 2 ^ (bitLength n - 1)" using k by (simp add: power_increasing)
  ultimately have "2 ^ k \<le> n" by (rule order_trans [rotated])
  with n show False by simp
qed

text \<open>
  \<open>numberOf x\<close> is an infinity or an integer of the sign of \<open>x\<close>, whose magnitude is not
  below the leading digits of \<open>x\<close>.
\<close>

lemma numberOf_cases:
  obtains y where
    "nat \<bar>x\<bar> div 2 ^ (bitLength (nat \<bar>x\<bar>) - 53) * 2 ^ (bitLength (nat \<bar>x\<bar>) - 53) \<le> y"
    and "numberOf x = (if x < 0 then NegInfinity else PosInfinity)
         \<or> numberOf x = Fin (if x < 0 then - int y else int y)"
proof -
  let ?m = "nat \<bar>x\<bar>"
  let ?e = "bitLength ?m - 53"
  let ?q = "?m div 2 ^ ?e"
  let ?q' = "if 2 ^ ?e < 2 * (?m mod 2 ^ ?e) \<or> (2 * (?m mod 2 ^ ?e) = 2 ^ ?e \<and> odd ?q)
             then ?q + 1 else ?q"
  let ?y = "?q' * 2 ^ ?e"
  have n: "numberOf x = (if 1024 < bitLength ?y then (if x < 0 then NegInfinity else PosInfinity)
      else Fin (if x < 0 then - int ?y else int ?y))"
    by (simp only: numberOf_def Let_def)
  have "?q \<le> ?q'" by simp
  then have le: "?q * 2 ^ ?e \<le> ?y" by (rule mult_le_mono1)
  from n have "numberOf x = (if x < 0 then NegInfinity else PosInfinity)
      \<or> numberOf x = Fin (if x < 0 then - int ?y else int ?y)"
    by (cases "1024 < bitLength ?y") (simp_all only: if_True if_False simp_thms)
  with le show ?thesis by (rule that)
qed

lemma leading_digits_lower:
  assumes "m \<noteq> 0"
  shows "2 ^ (bitLength m - 53) \<le> m div 2 ^ (bitLength m - 53) * 2 ^ (bitLength m - 53)"
proof -
  let ?e = "bitLength m - 53"
  have "(2::nat) ^ ?e \<le> 2 ^ (bitLength m - 1)" by (simp add: power_increasing)
  also have "\<dots> \<le> m" using assms by (rule bitLength_lower)
  finally have "1 \<le> m div 2 ^ ?e" by (simp add: div_greater_zero_iff Suc_le_eq)
  then have "1 * 2 ^ ?e \<le> m div 2 ^ ?e * 2 ^ ?e" by (rule mult_le_mono1)
  then show ?thesis by simp
qed

lemma leading_digits_big:
  assumes "2 ^ 53 \<le> m"
  shows "2 ^ 53 \<le> m div 2 ^ (bitLength m - 53) * 2 ^ (bitLength m - 53)"
proof -
  let ?b = "bitLength m"
  let ?e = "?b - 53"
  have m: "m \<noteq> 0" using assms by auto
  have b: "54 \<le> ?b"
  proof (rule ccontr)
    assume "\<not> 54 \<le> ?b"
    then have "?b \<le> 53" by simp
    then have "(2::nat) ^ ?b \<le> 2 ^ 53" by (rule power_increasing) simp
    with bitLength_upper [of m] assms show False by simp
  qed
  have split: "?b - 1 = 52 + ?e" using b by simp
  have "(2::nat) ^ 52 * 2 ^ ?e = 2 ^ (?b - 1)" by (simp only: split power_add)
  also have "\<dots> \<le> m" using m by (rule bitLength_lower)
  finally have "2 ^ 52 \<le> m div 2 ^ ?e"
    by (simp add: less_eq_div_iff_mult_less_eq)
  then have "2 ^ 52 * 2 ^ ?e \<le> m div 2 ^ ?e * 2 ^ ?e" by (rule mult_le_mono1)
  moreover have "(2::nat) ^ 53 \<le> 2 ^ 52 * 2 ^ ?e"
  proof -
    have "1 \<le> ?e" using b by simp
    then have "(2::nat) ^ 1 \<le> 2 ^ ?e" by (rule power_increasing) simp
    then have "(2::nat) ^ 52 * 2 ^ 1 \<le> 2 ^ 52 * 2 ^ ?e" by (rule mult_le_mono2)
    then show ?thesis by simp
  qed
  ultimately show ?thesis by (rule order_trans [rotated])
qed

lemma numberOf_small: "\<bar>x\<bar> < 2 ^ 53 \<Longrightarrow> numberOf x = Fin x"
proof -
  assume a: "\<bar>x\<bar> < 2 ^ 53"
  define m where "m = nat \<bar>x\<bar>"
  have "m < 2 ^ 53" using a by (simp add: m_def nat_less_iff)
  then have b: "bitLength m \<le> 53" by (rule bitLength_le)
  then have e: "bitLength m - 53 = 0" by simp
  have "bitLength m \<le> 1024" using b by simp
  then show ?thesis
    by (simp add: numberOf_def Let_def m_def [symmetric] e) (simp add: m_def)
qed

lemma numberOf_0: "numberOf 0 = Fin 0"
  by (simp add: numberOf_small)

lemma numberOf_pos:
  assumes "0 < x"
  shows "numberOf x = PosInfinity \<or> (\<exists>y. 0 < y \<and> numberOf x = Fin y)"
proof -
  obtain y where le: "nat \<bar>x\<bar> div 2 ^ (bitLength (nat \<bar>x\<bar>) - 53) * 2 ^ (bitLength (nat \<bar>x\<bar>) - 53) \<le> y"
    and n: "numberOf x = (if x < 0 then NegInfinity else PosInfinity)
         \<or> numberOf x = Fin (if x < 0 then - int y else int y)"
    by (rule numberOf_cases)
  have "nat \<bar>x\<bar> \<noteq> 0" using assms by simp
  then have "2 ^ (bitLength (nat \<bar>x\<bar>) - 53) \<le> y"
    using le by (rule order_trans [OF leading_digits_lower])
  moreover have "(0::nat) < 2 ^ (bitLength (nat \<bar>x\<bar>) - 53)" by simp
  ultimately have "0 < y" by (rule less_le_trans [rotated])
  with n assms show ?thesis by auto
qed

lemma numberOf_neg:
  assumes "x < 0"
  shows "numberOf x = NegInfinity \<or> (\<exists>y. y < 0 \<and> numberOf x = Fin y)"
proof -
  obtain y where le: "nat \<bar>x\<bar> div 2 ^ (bitLength (nat \<bar>x\<bar>) - 53) * 2 ^ (bitLength (nat \<bar>x\<bar>) - 53) \<le> y"
    and n: "numberOf x = (if x < 0 then NegInfinity else PosInfinity)
         \<or> numberOf x = Fin (if x < 0 then - int y else int y)"
    by (rule numberOf_cases)
  have "nat \<bar>x\<bar> \<noteq> 0" using assms by simp
  then have "2 ^ (bitLength (nat \<bar>x\<bar>) - 53) \<le> y"
    using le by (rule order_trans [OF leading_digits_lower])
  moreover have "(0::nat) < 2 ^ (bitLength (nat \<bar>x\<bar>) - 53)" by simp
  ultimately have "0 < y" by (rule less_le_trans [rotated])
  with n assms show ?thesis by auto
qed

lemma numberOf_big:
  assumes "2 ^ 53 \<le> x"
  shows "numberOf x = PosInfinity \<or> (\<exists>y. 2 ^ 53 \<le> y \<and> numberOf x = Fin y)"
proof -
  obtain y where le: "nat \<bar>x\<bar> div 2 ^ (bitLength (nat \<bar>x\<bar>) - 53) * 2 ^ (bitLength (nat \<bar>x\<bar>) - 53) \<le> y"
    and n: "numberOf x = (if x < 0 then NegInfinity else PosInfinity)
         \<or> numberOf x = Fin (if x < 0 then - int y else int y)"
    by (rule numberOf_cases)
  have x: "\<not> x < 0" using assms by (simp add: not_less order_trans [of 0 "2 ^ 53" x])
  have "2 ^ 53 \<le> nat \<bar>x\<bar>" using assms by (simp add: le_nat_iff)
  then have "2 ^ 53 \<le> y"
    using le by (rule order_trans [OF leading_digits_big])
  then have "(2::int) ^ 53 \<le> int y" by (simp add: numeral_power_le_of_nat_cancel_iff)
  with n x show ?thesis by auto
qed

lemma nonNegative_numberOf: "0 \<le> x \<Longrightarrow> nonNegative (numberOf x)"
  using numberOf_pos [of x] numberOf_0 by (cases "x = 0") auto

lemma nonNegative_not_NaN: "nonNegative x \<Longrightarrow> x \<noteq> NaN"
  by auto

lemma representable_small: "\<bar>n\<bar> < 2 ^ 53 \<Longrightarrow> representable n"
  by (simp add: representable_def numberOf_small)

lemma numberOf_2_53: "numberOf 9007199254740992 = Fin 9007199254740992"
  by (simp add: numberOf_def Let_def)

lemma number_add_one:
  assumes "0 \<le> n" and "n < 2 ^ 53"
  shows "number_add (Fin n) (Fin 1) = Fin (n + 1)"
proof (cases "n + 1 < 2 ^ 53")
  case True
  with assms show ?thesis by (simp add: numberOf_small)
next
  case False
  with assms have "n + 1 = 9007199254740992" by simp
  then show ?thesis by (simp add: numberOf_2_53)
qed

lemma number_sub_exact:
  assumes "0 \<le> a" "a < 2 ^ 53" "0 \<le> b" "b < 2 ^ 53"
  shows "number_sub (Fin a) (Fin b) = Fin (a - b)"
  using assms by (simp add: numberOf_small)

lemma number_sub_negative: "number_less x y \<Longrightarrow> number_less (number_sub x y) (Fin 0)"
proof (cases x; cases y)
  fix a b
  assume "number_less x y" and "x = Fin a" and "y = Fin b"
  then show ?thesis using numberOf_neg [of "a - b"] by auto
qed auto

lemma number_sub_positive: "number_less y x \<Longrightarrow> number_less (Fin 0) (number_sub x y)"
proof (cases x; cases y)
  fix a b
  assume "number_less y x" and "x = Fin a" and "y = Fin b"
  then show ?thesis using numberOf_pos [of "a - b"] by auto
qed auto

lemma number_sub_nonzero:
  assumes "x \<noteq> NaN" and "y \<noteq> NaN" and "x \<noteq> y"
  shows "number_sub x y \<noteq> Fin 0 \<and> number_sub x y \<noteq> NaN"
proof (cases x; cases y)
  fix a b
  assume "x = Fin a" and "y = Fin b"
  with assms show ?thesis
    using numberOf_pos [of "a - b"] numberOf_neg [of "a - b"] by (cases "a < b") auto
qed (use assms in auto)

subsection \<open>Digits\<close>

lemma digit_cases: "(d::nat) < 10 \<Longrightarrow> d \<in> {0, 1, 2, 3, 4, 5, 6, 7, 8, 9}"
  by auto

lemma digitValue_digitChar: "d < 10 \<Longrightarrow> digitValue (digitChar d) = d"
  using digit_cases [of d] by (auto simp: digitChar_def digitValue_def)

lemma digitChar_plain:
  "d < 10 \<Longrightarrow> digitChar d \<noteq> CHR ''-'' \<and> digitChar d \<noteq> CHR ''.'' \<and> digitChar d \<noteq> CHR ''+''
     \<and> digitChar d \<noteq> CHR ''x'' \<and> digitChar d \<noteq> CHR ''X'' \<and> digitChar d \<noteq> CHR ''v''
     \<and> \<not> isStrWhiteSpace (digitChar d)"
  using digit_cases [of d] by (auto simp: digitChar_def isStrWhiteSpace_def)

lemma plainDigit_digitChar: "d < 10 \<Longrightarrow> plainDigit (digitChar d)"
  using digitChar_plain [of d] digitValue_digitChar [of d] by (simp add: plainDigit_def)

lemma digitsOf_plain: "list_all plainDigit (digitsOf n)"
proof (induction n rule: digitsOf.induct)
  case (1 n)
  show ?case
  proof (cases "n < 10")
    case True
    then show ?thesis by (simp add: digitsOf.simps [of n] plainDigit_digitChar)
  next
    case False
    with 1 show ?thesis by (simp add: digitsOf.simps [of n] plainDigit_digitChar)
  qed
qed

lemma digitsOf_nonempty: "digitsOf n \<noteq> []"
  by (subst digitsOf.simps) simp

lemma length_digitsOf: "n < 10 ^ k \<Longrightarrow> 0 < k \<Longrightarrow> length (digitsOf n) \<le> k"
proof (induction n arbitrary: k rule: digitsOf.induct)
  case (1 n)
  show ?case
  proof (cases "n < 10")
    case True
    with 1(3) show ?thesis by (simp add: digitsOf.simps [of n] Suc_le_eq)
  next
    case False
    obtain j where k: "k = Suc j" using 1(3) by (cases k) auto
    have j: "0 < j"
    proof (rule ccontr)
      assume "\<not> 0 < j"
      with k 1(2) False show False by simp
    qed
    have "n div 10 < 10 ^ j" using 1(2) k by (simp add: div_less_iff_less_mult mult.commute)
    with 1(1) [OF False _ j] have "length (digitsOf (n div 10)) \<le> j" by simp
    with False k show ?thesis by (simp add: digitsOf.simps [of n])
  qed
qed

subsection \<open>The shortest decimal of a Number\<close>

lemma shortestFrom_value:
  "representable (int v) \<Longrightarrow> numberOf (int (shortestFrom v k)) = Fin (int v)"
  by (induction k) (auto simp: shortestFrom.simps Let_def representable_def)

lemma shortestFrom_small:
  assumes "v < 2 ^ 53"
  shows "shortestFrom v k = v"
proof (induction k)
  case 0
  show ?case by (simp add: shortestFrom.simps)
next
  case (Suc k)
  let ?p = "(10::nat) ^ Suc k"
  let ?lo = "v div ?p * ?p"
  let ?hi = "?lo + ?p"
  have "?lo \<le> v" by simp
  with assms have "int ?lo < 2 ^ 53"
    by (metis le_less_trans of_nat_less_numeral_power_cancel_iff)
  then have lo: "numberOf (int ?lo) = Fin (int ?lo)" by (simp add: numberOf_small)
  have "v < ?hi" using div_mult_mod_eq [of v ?p] mod_less_divisor [of ?p v]
    by (metis add_strict_left_mono zero_less_numeral zero_less_power)
  have hi: "numberOf (int ?hi) \<noteq> Fin (int v)"
  proof (cases "int ?hi < 2 ^ 53")
    case True
    then have "numberOf (int ?hi) = Fin (int ?hi)" by (simp add: numberOf_small)
    moreover have "int ?hi \<noteq> int v" using \<open>v < ?hi\<close> by (metis nat_neq_iff of_nat_eq_iff)
    ultimately show ?thesis by (metis number.inject)
  next
    case False
    then have "2 ^ 53 \<le> int ?hi" by simp
    then have "numberOf (int ?hi) = PosInfinity \<or> (\<exists>y. 2 ^ 53 \<le> y \<and> numberOf (int ?hi) = Fin y)"
      by (rule numberOf_big)
    moreover have "int v < 2 ^ 53" using assms by simp
    ultimately show ?thesis by auto
  qed
  have okLo: "(numberOf (int ?lo) = Fin (int v)) = (?lo = v)"
    using lo by (metis number.inject of_nat_eq_iff)
  have okHi: "(numberOf (int ?hi) = Fin (int v)) = False"
    using hi by simp
  have "shortestFrom v (Suc k) = (if ?lo = v then ?lo else shortestFrom v k)"
    by (simp only: shortestFrom.simps Let_def okLo okHi simp_thms if_False)
  with Suc show ?case by (cases "?lo = v") (simp_all del: power_Suc)
qed

lemma shortest_small: "v < 2 ^ 53 \<Longrightarrow> shortest v = v"
  by (simp add: shortest_def shortestFrom_small)

lemma numberOf_10_21: "numberOf 1000000000000000000000 = Fin 1000000000000000000000"
  by (simp add: numberOf_def Let_def)

lemma shortestFrom_bound:
  assumes "v < 10 ^ 21"
  shows "k \<le> 20 \<Longrightarrow> shortestFrom v k < 10 ^ 21"
proof (induction k)
  case 0
  with assms show ?case by (simp add: shortestFrom.simps)
next
  case (Suc k)
  let ?p = "(10::nat) ^ Suc k"
  let ?lo = "v div ?p * ?p"
  let ?hi = "?lo + ?p"
  have lo: "?lo < 10 ^ 21"
    using assms by (rule le_less_trans [rotated]) simp
  have split: "(10::nat) ^ 21 = 10 ^ (21 - Suc k) * ?p"
    using Suc(2) by (simp only: power_add [symmetric]) simp
  have "v div ?p < 10 ^ (21 - Suc k)"
    using assms unfolding split by (simp only: div_less_iff_less_mult zero_less_power zero_less_numeral)
  then have "v div ?p + 1 \<le> 10 ^ (21 - Suc k)" by simp
  then have "(v div ?p + 1) * ?p \<le> 10 ^ (21 - Suc k) * ?p" by (rule mult_le_mono1)
  then have le: "?hi \<le> 10 ^ 21" unfolding split [symmetric] by (simp only: add_mult_distrib mult_1)
  have hi: "numberOf (int ?hi) = Fin (int v) \<Longrightarrow> ?hi < 10 ^ 21"
  proof (rule ccontr)
    assume ok: "numberOf (int ?hi) = Fin (int v)" and "\<not> ?hi < 10 ^ 21"
    with le have "?hi = 10 ^ 21" by simp
    then have "int ?hi = 1000000000000000000000" by (simp only: of_nat_power of_nat_numeral) simp
    with ok have "Fin (int v) = Fin 1000000000000000000000" by (simp only: numberOf_10_21)
    with assms show False by simp
  qed
  have rec: "shortestFrom v k < 10 ^ 21" using Suc by simp
  show ?case
    using lo hi rec by (simp add: shortestFrom.simps Let_def del: power_Suc)
qed

lemma shortest_bound:
  assumes "v < 10 ^ 21"
  shows "shortest v < 10 ^ 21"
proof -
  have "length (digitsOf v) \<le> 21" using assms by (rule length_digitsOf) simp
  then have "length (digitsOf v) - 1 \<le> 20" by simp
  with assms show ?thesis unfolding shortest_def by (rule shortestFrom_bound)
qed

lemma numberToString_digits:
  assumes "0 \<le> n" and "n < 10 ^ 21"
  shows "numberToString (Fin n) = digitsOf (shortest (nat n))"
proof -
  have "nat n < 10 ^ 21" using assms by (simp add: nat_less_iff)
  then have "shortest (nat n) < 10 ^ 21" by (rule shortest_bound)
  then have "int (shortest (nat n)) < 10 ^ 21"
    by (metis of_nat_less_numeral_power_cancel_iff)
  with assms(1) show ?thesis by (simp add: numberToString_def Let_def)
qed

lemma numberToString_small:
  assumes "0 \<le> n" and "n < 2 ^ 53"
  shows "numberToString (Fin n) = digitsOf (nat n)"
proof -
  have "nat n < 2 ^ 53" using assms by (simp add: nat_less_iff)
  then have "shortest (nat n) = nat n" by (rule shortest_small)
  moreover have "n < 10 ^ 21" using assms(2) by simp
  ultimately show ?thesis using assms(1) by (simp add: numberToString_digits)
qed

lemma stripTrailingZeros_subset: "set (stripTrailingZeros ds) \<subseteq> set ds"
  unfolding stripTrailingZeros_def using set_dropWhileD [of _ "\<lambda>c. c = CHR ''0''" "rev ds"]
  by auto

lemma plain_no_dash: "list_all plainDigit a \<Longrightarrow> CHR ''-'' \<notin> set a"
  by (auto simp: list_all_iff plainDigit_def)

lemma plain_no_dot: "list_all plainDigit a \<Longrightarrow> CHR ''.'' \<notin> set a"
  by (auto simp: list_all_iff plainDigit_def)

lemma numberToString_no_dash:
  assumes "nonNegative x"
  shows "CHR ''-'' \<notin> set (numberToString x)"
proof (cases x)
  case (Fin n)
  let ?ds = "digitsOf (shortest (nat \<bar>n\<bar>))"
  have d: "\<And>k. CHR ''-'' \<notin> set (digitsOf k)"
    by (rule plain_no_dash) (rule digitsOf_plain)
  then have "CHR ''-'' \<notin> set (stripTrailingZeros ?ds)"
    using stripTrailingZeros_subset [of ?ds] by auto
  moreover have "\<And>s. CHR ''-'' \<notin> set s \<Longrightarrow>
      CHR ''-'' \<notin> set (case s of [] \<Rightarrow> [] | [c] \<Rightarrow> [c] | c # cs \<Rightarrow> c # ''.'' @ cs)"
    by (auto split: list.splits)
  ultimately have "CHR ''-'' \<notin> set (case stripTrailingZeros ?ds of
      [] \<Rightarrow> [] | [c] \<Rightarrow> [c] | c # cs \<Rightarrow> c # ''.'' @ cs)"
    by blast
  with d assms Fin show ?thesis
    by (simp add: numberToString_def Let_def)
qed (use assms in \<open>simp_all add: numberToString_def\<close>)

subsection \<open>Evaluating the printing of a Number\<close>

lemma shortestFrom_0: "shortestFrom v 0 = v"
  by (simp add: shortestFrom.simps)

lemma shortestFrom_step:
  "shortestFrom v (Suc k) =
     (if numberOf (int (v div 10 ^ Suc k * 10 ^ Suc k)) = Fin (int v) then
        (if numberOf (int (v div 10 ^ Suc k * 10 ^ Suc k + 10 ^ Suc k)) = Fin (int v) then
           (if v - v div 10 ^ Suc k * 10 ^ Suc k < v div 10 ^ Suc k * 10 ^ Suc k + 10 ^ Suc k - v
            then v div 10 ^ Suc k * 10 ^ Suc k
            else if v div 10 ^ Suc k * 10 ^ Suc k + 10 ^ Suc k - v < v - v div 10 ^ Suc k * 10 ^ Suc k
            then v div 10 ^ Suc k * 10 ^ Suc k + 10 ^ Suc k
            else if even (v div 10 ^ Suc k) then v div 10 ^ Suc k * 10 ^ Suc k
            else v div 10 ^ Suc k * 10 ^ Suc k + 10 ^ Suc k)
         else v div 10 ^ Suc k * 10 ^ Suc k)
      else if numberOf (int (v div 10 ^ Suc k * 10 ^ Suc k + 10 ^ Suc k)) = Fin (int v)
      then v div 10 ^ Suc k * 10 ^ Suc k + 10 ^ Suc k
      else shortestFrom v k)"
  by (simp only: shortestFrom.simps Let_def) simp

lemma shortestFrom_numeral:
  "shortestFrom v (numeral k) =
     (if numberOf (int (v div 10 ^ numeral k * 10 ^ numeral k)) = Fin (int v) then
        (if numberOf (int (v div 10 ^ numeral k * 10 ^ numeral k + 10 ^ numeral k)) = Fin (int v) then
           (if v - v div 10 ^ numeral k * 10 ^ numeral k
                < v div 10 ^ numeral k * 10 ^ numeral k + 10 ^ numeral k - v
            then v div 10 ^ numeral k * 10 ^ numeral k
            else if v div 10 ^ numeral k * 10 ^ numeral k + 10 ^ numeral k - v
                < v - v div 10 ^ numeral k * 10 ^ numeral k
            then v div 10 ^ numeral k * 10 ^ numeral k + 10 ^ numeral k
            else if even (v div 10 ^ numeral k) then v div 10 ^ numeral k * 10 ^ numeral k
            else v div 10 ^ numeral k * 10 ^ numeral k + 10 ^ numeral k)
         else v div 10 ^ numeral k * 10 ^ numeral k)
      else if numberOf (int (v div 10 ^ numeral k * 10 ^ numeral k + 10 ^ numeral k)) = Fin (int v)
      then v div 10 ^ numeral k * 10 ^ numeral k + 10 ^ numeral k
      else shortestFrom v (pred_numeral k))"
  using shortestFrom_step [of v "pred_numeral k"] by (simp only: numeral_eq_Suc)

lemma digitsOf_numeral:
  "digitsOf (numeral k) =
     (if (numeral k :: nat) < 10 then [digitChar (numeral k)]
      else digitsOf (numeral k div 10) @ [digitChar (numeral k mod 10)])"
  by (rule digitsOf.simps)

lemma digitsOf_0: "digitsOf 0 = ''0''"
  by (simp add: digitsOf.simps digitChar_def)

lemma digitsOf_1: "digitsOf (Suc 0) = ''1''"
  by (simp add: digitsOf.simps digitChar_def)

lemmas number_eval = numberOf_def shortest_def shortestFrom_0 shortestFrom_step shortestFrom_numeral
  digitsOf_0 digitsOf_1 digitsOf_numeral digitChar_def

subsection \<open>Parsing and formatting versions\<close>

lemma radixValue_snoc: "radixValue r (z @ [c]) = radixValue r z * r + digitValue c"
  by (simp add: radixValue_def)

lemma radixValue_digitsOf: "radixValue 10 (digitsOf n) = n"
proof (induction n rule: digitsOf.induct)
  case (1 n)
  show ?case
  proof (cases "n < 10")
    case True
    then show ?thesis by (simp add: digitsOf.simps [of n] radixValue_def digitValue_digitChar)
  next
    case False
    with 1 have "radixValue 10 (digitsOf (n div 10)) = n div 10" by simp
    with False show ?thesis
      by (simp add: digitsOf.simps [of n] radixValue_snoc digitValue_digitChar)
  qed
qed

lemma startsWith_set: "startsWith s p \<Longrightarrow> set p \<subseteq> set s"
  unfolding startsWith_def by (metis set_take_subset)

lemma parseInt_plain:
  assumes "list_all plainDigit z" and "z \<noteq> []"
  shows "parseInt (Some z) = numberOf (int (radixValue 10 z))"
proof -
  obtain c cs where z: "z = c # cs" using assms(2) by (cases z) auto
  have c: "plainDigit c" using assms(1) z by simp
  have ws: "dropWhile isStrWhiteSpace z = z" using c z by (simp add: plainDigit_def)
  have nosign: "\<not> startsWith z ''-''" "\<not> startsWith z ''+''"
    using c z by (auto simp: startsWith_def plainDigit_def)
  have nohex: "\<not> startsWith z ''0x''" "\<not> startsWith z ''0X''"
    using assms(1) startsWith_set [of z "''0x''"] startsWith_set [of z "''0X''"]
    by (auto simp: list_all_iff plainDigit_def)
  have tw: "takeWhile (\<lambda>c. digitValue c < 10) z = z"
    using assms(1) by (auto simp: list_all_iff plainDigit_def intro: takeWhile_eq_all_conv [THEN iffD2])
  show ?thesis
    using assms(2) by (simp add: parseInt_def Let_def ws nosign nohex tw)
qed

lemma parseInt_digitsOf: "parseInt (Some (digitsOf n)) = numberOf (int n)"
  by (simp add: parseInt_plain digitsOf_plain digitsOf_nonempty radixValue_digitsOf)

lemma or_zero_Fin: "or_zero (Fin n) = Fin n"
  by (simp add: or_zero_def)

lemma split_no_sep: "c \<notin> set s \<Longrightarrow> split s c = [s]"
  by (induction s) auto

lemma split_append_sep: "c \<notin> set a \<Longrightarrow> split (a @ c # b) c = a # split b c"
  by (induction a) auto

lemma indexOf_absent: "c \<notin> set s \<Longrightarrow> indexOf s c = - 1"
  by (induction s) auto

lemma indexOf_nonneg_or_absent: "indexOf s c = - 1 \<or> 0 \<le> indexOf s c"
  by (induction s) (auto simp: Let_def)

lemma indexOf_first: "c \<notin> set a \<Longrightarrow> indexOf (a @ c # b) c = int (length a)"
  by (induction a) (auto simp: Let_def)

lemma startsWith_v: "startsWith (CHR ''v'' # s) ''v''"
  by (simp add: startsWith_def)

lemma split_triple:
  assumes "CHR ''.'' \<notin> set a" "CHR ''.'' \<notin> set b" "CHR ''.'' \<notin> set c"
  shows "split (a @ CHR ''.'' # b @ CHR ''.'' # c) CHR ''.'' = [a, b, c]"
  using assms by (simp add: split_append_sep split_no_sep)

lemma parseVersion_of_parts:
  assumes "indexOf s CHR ''-'' = - 1" and "split s CHR ''.'' = [a, b, c]"
  shows "parseVersion (CHR ''v'' # s) =
    \<lparr> major = or_zero (parseInt (Some a)), minor = or_zero (parseInt (Some b)),
      patch = or_zero (parseInt (Some c)), prerelease = None \<rparr>"
  using assms by (simp add: parseVersion_def startsWith_v slice_def at_index_def)

lemma nat_int_Suc: "nat (int n + 1) = Suc n"
  by simp

lemma parseVersion_of_parts_pre:
  assumes "CHR ''-'' \<notin> set s" and "split s CHR ''.'' = [a, b, c]"
  shows "parseVersion (CHR ''v'' # s @ CHR ''-'' # p) =
    \<lparr> major = or_zero (parseInt (Some a)), minor = or_zero (parseInt (Some b)),
      patch = or_zero (parseInt (Some c)), prerelease = Some p \<rparr>"
  using assms
  by (simp add: parseVersion_def startsWith_v slice_def at_index_def indexOf_first substring_def
      nat_int_Suc)

lemma parse_number:
  assumes "0 \<le> n" and "n < 10 ^ 21" and "representable n"
  shows "or_zero (parseInt (Some (numberToString (Fin n)))) = Fin n"
proof -
  have "representable (int (nat n))" using assms(1,3) by simp
  then have "numberOf (int (shortest (nat n))) = Fin (int (nat n))"
    unfolding shortest_def by (rule shortestFrom_value)
  with assms(1,2) show ?thesis
    by (simp add: numberToString_digits parseInt_digitsOf or_zero_Fin)
qed

lemma triple_text_no_dash:
  assumes "nonNegative M" "nonNegative N" "nonNegative P"
  shows "CHR ''-'' \<notin> set (numberToString M @ ''.'' @ numberToString N @ ''.'' @ numberToString P)"
  using assms by (simp add: numberToString_no_dash)

lemma triple_text_split:
  assumes "0 \<le> M" "0 \<le> N" "0 \<le> P" and "M < 10 ^ 21" "N < 10 ^ 21" "P < 10 ^ 21"
  shows "split (numberToString (Fin M) @ ''.'' @ numberToString (Fin N) @ ''.''
                @ numberToString (Fin P)) CHR ''.''
    = [numberToString (Fin M), numberToString (Fin N), numberToString (Fin P)]"
  using assms by (simp add: numberToString_digits split_triple plain_no_dot digitsOf_plain)

lemma formatVersion_None:
  "formatVersion M N P None = ''v'' @ numberToString M @ ''.'' @ numberToString N @ ''.'' @ numberToString P"
  by (simp add: formatVersion_def)

lemma formatVersion_Some:
  "p \<noteq> [] \<Longrightarrow> formatVersion M N P (Some p) = formatVersion M N P None @ ''-'' @ p"
  by (simp add: formatVersion_def)

lemma roundtrip_None:
  assumes "0 \<le> M" "0 \<le> N" "0 \<le> P" and "M < 10 ^ 21" "N < 10 ^ 21" "P < 10 ^ 21"
    and "representable M" "representable N" "representable P"
  shows "parseVersion (formatVersion (Fin M) (Fin N) (Fin P) None)
    = \<lparr> major = Fin M, minor = Fin N, patch = Fin P, prerelease = None \<rparr>"
proof -
  let ?s = "numberToString (Fin M) @ ''.'' @ numberToString (Fin N) @ ''.'' @ numberToString (Fin P)"
  have "formatVersion (Fin M) (Fin N) (Fin P) None = CHR ''v'' # ?s" by (simp add: formatVersion_None)
  moreover have "CHR ''-'' \<notin> set ?s"
    using assms(1-3) by (intro triple_text_no_dash) simp_all
  then have "indexOf ?s CHR ''-'' = - 1" by (rule indexOf_absent)
  ultimately show ?thesis
    using parseVersion_of_parts [of ?s, OF _ triple_text_split [OF assms(1-6)]] assms
    by (simp add: parse_number)
qed

lemma roundtrip_Some:
  assumes "0 \<le> M" "0 \<le> N" "0 \<le> P" and "M < 10 ^ 21" "N < 10 ^ 21" "P < 10 ^ 21"
    and "representable M" "representable N" "representable P"
    and "p \<noteq> []"
  shows "parseVersion (formatVersion (Fin M) (Fin N) (Fin P) (Some p))
    = \<lparr> major = Fin M, minor = Fin N, patch = Fin P, prerelease = Some p \<rparr>"
proof -
  let ?s = "numberToString (Fin M) @ ''.'' @ numberToString (Fin N) @ ''.'' @ numberToString (Fin P)"
  have "formatVersion (Fin M) (Fin N) (Fin P) (Some p) = CHR ''v'' # ?s @ CHR ''-'' # p"
    using assms(10) by (simp add: formatVersion_def)
  moreover have "CHR ''-'' \<notin> set ?s"
    using assms(1-3) by (intro triple_text_no_dash) simp_all
  ultimately show ?thesis
    using parseVersion_of_parts_pre [of ?s, OF _ triple_text_split [OF assms(1-6)]] assms
    by (simp add: parse_number)
qed

lemma match_nonempty: "match_word_dot_digits p = Some x \<Longrightarrow> p \<noteq> []"
  by (auto simp: match_word_dot_digits_def)

lemma indexOf_absent_iff: "indexOf s c = - 1 \<longleftrightarrow> c \<notin> set s"
proof (induction s)
  case Nil
  then show ?case by simp
next
  case (Cons x xs)
  then show ?case
    using indexOf_nonneg_or_absent [of xs c] by (auto simp: Let_def)
qed

lemma indexOf_take: "c \<notin> set (take (nat (indexOf s c)) s)"
proof (induction s)
  case Nil
  then show ?case by simp
next
  case (Cons x xs)
  show ?case
  proof (cases "x = c")
    case True
    then show ?thesis by simp
  next
    case False
    show ?thesis
    proof (cases "indexOf xs c = - 1")
      case True
      with False show ?thesis by simp
    next
      case neq: False
      then have "0 \<le> indexOf xs c" using indexOf_nonneg_or_absent [of xs c] by simp
      then have "nat (indexOf xs c + 1) = Suc (nat (indexOf xs c))" by simp
      with False neq Cons show ?thesis by (simp add: Let_def)
    qed
  qed
qed

lemma split_parts_subset: "p \<in> set (split s c) \<Longrightarrow> set p \<subseteq> set s"
proof (induction s arbitrary: p)
  case Nil
  then show ?case by simp
next
  case (Cons x xs)
  show ?case
  proof (cases "x = c")
    case True
    with Cons show ?thesis by auto
  next
    case False
    show ?thesis
    proof (cases "split xs c")
      case Nil
      with False Cons.prems show ?thesis by simp
    next
      case (Cons q qs)
      with False Cons.prems have "p = x # q \<or> p \<in> set qs" by simp
      moreover have "set q \<subseteq> set xs" using Cons.IH [of q] Cons by simp
      moreover have "p \<in> set qs \<Longrightarrow> set p \<subseteq> set xs" using Cons.IH [of p] Cons by simp
      ultimately show ?thesis by auto
    qed
  qed
qed

lemma parseInt_undefined: "parseInt None = NaN"
  by (simp add: parseInt_def startsWith_def isStrWhiteSpace_def digitValue_def slice_def)

lemma parseInt_nonneg:
  assumes "CHR ''-'' \<notin> set s"
  shows "parseInt (Some s) = NaN \<or> nonNegative (parseInt (Some s))"
proof -
  have "set (dropWhile isStrWhiteSpace s) \<subseteq> set s" by (rule set_dropWhileD [THEN subsetI])
  then have "\<not> startsWith (dropWhile isStrWhiteSpace s) ''-''"
    using assms startsWith_set [of "dropWhile isStrWhiteSpace s" "''-''"] by auto
  then show ?thesis by (simp add: parseInt_def Let_def nonNegative_numberOf)
qed

lemma or_zero_parseInt_nonneg:
  assumes "\<And>p. x = Some p \<Longrightarrow> CHR ''-'' \<notin> set p"
  shows "nonNegative (or_zero (parseInt x))"
proof (cases x)
  case None
  then show ?thesis by (simp add: parseInt_undefined or_zero_def)
next
  case (Some p)
  then show ?thesis
    using parseInt_nonneg [of p] assms by (auto simp: or_zero_def)
qed

lemma at_index_set: "at_index xs i = Some p \<Longrightarrow> p \<in> set xs"
  by (auto simp: at_index_def split: if_splits)

lemma versionPart_parts_no_dash:
  assumes "CHR ''-'' \<notin> set s" and "at_index (split s CHR ''.'') i = Some p"
  shows "CHR ''-'' \<notin> set p"
  using split_parts_subset [OF at_index_set [OF assms(2)]] assms(1) by auto

lemma parseVersion_no_dash:
  assumes "CHR ''-'' \<notin> set v"
  shows "prerelease (parseVersion v) = None"
proof -
  have "CHR ''-'' \<notin> set (if startsWith v ''v'' then slice v 1 else v)"
    using assms in_set_dropD [of "CHR ''-''" 1 v] by (auto simp: slice_def)
  then show ?thesis
    by (simp add: parseVersion_def Let_def indexOf_absent)
qed

lemma parseVersion_nonneg:
  "nonNegative (major (parseVersion v)) \<and> nonNegative (minor (parseVersion v))
   \<and> nonNegative (patch (parseVersion v))"
proof -
  define clean where "clean = (if startsWith v ''v'' then slice v 1 else v)"
  define part where "part = (if indexOf clean CHR ''-'' \<noteq> - 1
      then substring clean 0 (nat (indexOf clean CHR ''-'')) else clean)"
  have nd: "CHR ''-'' \<notin> set part"
    using indexOf_take [of "CHR ''-''" clean] indexOf_absent_iff [of clean "CHR ''-''"]
    by (auto simp: part_def substring_def)
  have "\<And>i. nonNegative (or_zero (parseInt (at_index (split part CHR ''.'') i)))"
    by (rule or_zero_parseInt_nonneg) (rule versionPart_parts_no_dash [OF nd])
  then show ?thesis
    by (simp add: parseVersion_def Let_def clean_def [symmetric] part_def [symmetric])
qed

lemma split_nonempty: "split s c \<noteq> []"
  by (induction s) (auto split: list.splits)

lemma split_hd: "hd (split s c) = takeWhile (\<lambda>x. x \<noteq> c) s"
proof (induction s)
  case Nil
  then show ?case by simp
next
  case (Cons x xs)
  then show ?case
    using split_nonempty [of xs c] by (cases "split xs c") auto
qed

lemma split_length_lt2: "length (split s c) < 2 \<longleftrightarrow> c \<notin> set s"
proof (induction s)
  case Nil
  then show ?case by simp
next
  case (Cons x xs)
  then show ?case
    using split_nonempty [of xs c] by (cases "split xs c") auto
qed

lemma split_second:
  assumes "c \<notin> set a"
  shows "split (a @ c # s) c ! 1 = takeWhile (\<lambda>x. x \<noteq> c) s"
  using assms split_nonempty [of s c] by (simp add: split_append_sep split_hd [symmetric] hd_conv_nth)

lemma decompose_at_first:
  assumes "c \<in> set v"
  shows "v = takeWhile (\<lambda>x. x \<noteq> c) v @ c # tl (dropWhile (\<lambda>x. x \<noteq> c) v)"
proof -
  have "dropWhile (\<lambda>x. x \<noteq> c) v \<noteq> []" using assms by (simp add: dropWhile_eq_Nil_conv)
  moreover have "hd (dropWhile (\<lambda>x. x \<noteq> c) v) = c"
    using assms hd_dropWhile [of "\<lambda>x. x \<noteq> c" v] by (simp add: dropWhile_eq_Nil_conv)
  ultimately have "dropWhile (\<lambda>x. x \<noteq> c) v = c # tl (dropWhile (\<lambda>x. x \<noteq> c) v)"
    by (cases "dropWhile (\<lambda>x. x \<noteq> c) v") auto
  then show ?thesis by (metis takeWhile_dropWhile_id)
qed

lemma match_word_dot_digits_iff:
  "match_word_dot_digits seg = Some (w, d) \<longleftrightarrow>
     seg = w @ CHR ''.'' # d \<and> w \<noteq> [] \<and> list_all isWordChar w \<and> d \<noteq> [] \<and> list_all isDigit d"
proof
  assume m: "match_word_dot_digits seg = Some (w, d)"
  then obtain c where r: "dropWhile isWordChar seg = c # d"
    by (auto simp: match_word_dot_digits_def Let_def split: list.splits if_splits)
  with m have f: "w = takeWhile isWordChar seg" "c = CHR ''.''" "w \<noteq> []" "d \<noteq> []" "list_all isDigit d"
    by (auto simp: match_word_dot_digits_def Let_def split: if_splits)
  have "seg = takeWhile isWordChar seg @ dropWhile isWordChar seg" by simp
  with r f have "seg = w @ CHR ''.'' # d" by simp
  moreover have "list_all isWordChar w" using f(1) by (auto simp: list_all_iff dest: set_takeWhileD)
  ultimately show "seg = w @ CHR ''.'' # d \<and> w \<noteq> [] \<and> list_all isWordChar w \<and> d \<noteq> [] \<and> list_all isDigit d"
    using f by simp
next
  assume h: "seg = w @ CHR ''.'' # d \<and> w \<noteq> [] \<and> list_all isWordChar w \<and> d \<noteq> [] \<and> list_all isDigit d"
  have nd: "\<not> isWordChar CHR ''.''" by (simp add: isWordChar_def)
  from h have a: "\<forall>x\<in>set w. isWordChar x" by (simp add: list_all_iff)
  have "takeWhile isWordChar seg = w" using h a nd by (simp add: takeWhile_append2)
  moreover have "dropWhile isWordChar seg = CHR ''.'' # d" using h a nd by (simp add: dropWhile_append2)
  ultimately show "match_word_dot_digits seg = Some (w, d)"
    using h by (simp add: match_word_dot_digits_def Let_def)
qed

lemma isDigit_plain: "isDigit c \<Longrightarrow> plainDigit c"
  by (auto simp: isDigit_def plainDigit_def digitValue_def isStrWhiteSpace_def)

lemma parseInt_digits:
  assumes "list_all isDigit d" and "d \<noteq> []"
  shows "parseInt (Some d) = numberOf (int (radixValue 10 d))"
  using assms by (intro parseInt_plain) (auto simp: list_all_iff isDigit_plain)

lemma isDigit_not_dash: "isDigit c \<Longrightarrow> c \<noteq> CHR ''-''"
  by (auto simp: isDigit_def)

lemma isWordChar_not_dash: "isWordChar c \<Longrightarrow> c \<noteq> CHR ''-''"
  by (auto simp: isWordChar_def)

lemma segment_of_text:
  assumes "list_all isWordChar w" and "list_all isDigit d" and "rest = [] \<or> hd rest = CHR ''-''"
  shows "takeWhile (\<lambda>x. x \<noteq> CHR ''-'') (w @ CHR ''.'' # d @ rest) = w @ CHR ''.'' # d"
proof -
  have all: "\<And>x. x \<in> set (w @ CHR ''.'' # d) \<Longrightarrow> x \<noteq> CHR ''-''"
    using assms(1,2) isDigit_not_dash isWordChar_not_dash by (auto simp: list_all_iff)
  have nil: "takeWhile (\<lambda>x. x \<noteq> CHR ''-'') rest = []"
    using assms(3) by (cases rest) auto
  have "takeWhile (\<lambda>x. x \<noteq> CHR ''-'') ((w @ CHR ''.'' # d) @ rest)
      = (w @ CHR ''.'' # d) @ takeWhile (\<lambda>x. x \<noteq> CHR ''-'') rest"
    by (rule takeWhile_append2) (rule all)
  then show ?thesis by (simp add: nil)
qed

lemma parseExistingPrerelease_iff:
  "parseExistingPrerelease v = Some e \<longleftrightarrow>
     (\<exists>a w d rest. v = a @ ''-'' @ w @ ''.'' @ d @ rest
        \<and> CHR ''-'' \<notin> set a
        \<and> w \<noteq> [] \<and> list_all isWordChar w
        \<and> d \<noteq> [] \<and> list_all isDigit d
        \<and> (rest = [] \<or> hd rest = CHR ''-'')
        \<and> e = \<lparr> suffix = w, number = numberOf (int (radixValue 10 d)) \<rparr>)"
proof
  assume p: "parseExistingPrerelease v = Some e"
  then have len: "\<not> length (split v CHR ''-'') < 2"
    by (auto simp: parseExistingPrerelease_def Let_def split: if_splits)
  then have mem: "CHR ''-'' \<in> set v" by (simp add: split_length_lt2)
  define a where "a = takeWhile (\<lambda>x. x \<noteq> CHR ''-'') v"
  define s where "s = tl (dropWhile (\<lambda>x. x \<noteq> CHR ''-'') v)"
  define seg where "seg = takeWhile (\<lambda>x. x \<noteq> CHR ''-'') s"
  define rest where "rest = dropWhile (\<lambda>x. x \<noteq> CHR ''-'') s"
  have v: "v = a @ CHR ''-'' # s" unfolding a_def s_def by (rule decompose_at_first [OF mem])
  have na: "CHR ''-'' \<notin> set a" unfolding a_def by (auto dest: set_takeWhileD)
  have s: "s = seg @ rest" by (simp add: seg_def rest_def)
  have rest: "rest = [] \<or> hd rest = CHR ''-''"
    unfolding rest_def using hd_dropWhile [of "\<lambda>x. x \<noteq> CHR ''-''" s] by auto
  have second: "split v CHR ''-'' ! 1 = seg"
    unfolding seg_def by (subst v) (rule split_second [OF na])
  from p len second obtain w d where m: "match_word_dot_digits seg = Some (w, d)"
    and e: "e = \<lparr> suffix = w, number = parseInt (Some d) \<rparr>"
    by (auto simp: parseExistingPrerelease_def Let_def split: option.splits)
  from m have sh: "seg = w @ CHR ''.'' # d" "w \<noteq> []" "list_all isWordChar w" "d \<noteq> []" "list_all isDigit d"
    by (simp_all add: match_word_dot_digits_iff)
  have "v = a @ ''-'' @ w @ ''.'' @ d @ rest" using v s sh(1) by simp
  moreover have "e = \<lparr> suffix = w, number = numberOf (int (radixValue 10 d)) \<rparr>"
    using e parseInt_digits [OF sh(5) sh(4)] by simp
  ultimately show "\<exists>a w d rest. v = a @ ''-'' @ w @ ''.'' @ d @ rest
        \<and> CHR ''-'' \<notin> set a
        \<and> w \<noteq> [] \<and> list_all isWordChar w
        \<and> d \<noteq> [] \<and> list_all isDigit d
        \<and> (rest = [] \<or> hd rest = CHR ''-'')
        \<and> e = \<lparr> suffix = w, number = numberOf (int (radixValue 10 d)) \<rparr>"
    using na sh rest by blast
next
  assume "\<exists>a w d rest. v = a @ ''-'' @ w @ ''.'' @ d @ rest
        \<and> CHR ''-'' \<notin> set a
        \<and> w \<noteq> [] \<and> list_all isWordChar w
        \<and> d \<noteq> [] \<and> list_all isDigit d
        \<and> (rest = [] \<or> hd rest = CHR ''-'')
        \<and> e = \<lparr> suffix = w, number = numberOf (int (radixValue 10 d)) \<rparr>"
  then obtain a w d rest where v: "v = a @ CHR ''-'' # (w @ CHR ''.'' # d @ rest)"
    and na: "CHR ''-'' \<notin> set a"
    and sh: "w \<noteq> []" "list_all isWordChar w" "d \<noteq> []" "list_all isDigit d"
    and rest: "rest = [] \<or> hd rest = CHR ''-''"
    and e: "e = \<lparr> suffix = w, number = numberOf (int (radixValue 10 d)) \<rparr>"
    by auto
  have len: "\<not> length (split v CHR ''-'') < 2" using v by (simp add: split_length_lt2)
  have second: "split v CHR ''-'' ! 1 = w @ CHR ''.'' # d"
    by (subst v) (simp only: split_second [OF na] segment_of_text [OF sh(2) sh(4) rest])
  have m: "match_word_dot_digits (w @ CHR ''.'' # d) = Some (w, d)"
    using sh by (simp add: match_word_dot_digits_iff)
  show "parseExistingPrerelease v = Some e"
    using len second m e parseInt_digits [OF sh(4) sh(3)]
    by (simp add: parseExistingPrerelease_def Let_def)
qed

lemma numberOf_2_53_1: "numberOf 9007199254740993 = Fin 9007199254740992"
  by (simp add: numberOf_def)

lemma nonNegative_add_one: "nonNegative x \<Longrightarrow> nonNegative (number_add x (Fin 1))"
  by (cases x) (simp_all add: nonNegative_numberOf)

lemma number_less_neq: "number_less x y \<Longrightarrow> x \<noteq> y"
  by (cases x; cases y) auto

subsection \<open>The version calculator\<close>

text \<open>
  Claim C1 says that for every version text the release type \<open>major\<close> gives the version
  with major+1, and likewise for \<open>minor\<close> and \<open>patch\<close>. The components are doubles: from
  \<open>2^53\<close> on, the sum of a component and \<open>1\<close> is no double, and the code gets a double
  next to it. For \<open>v9007199254740992.0.0\<close>, whose major component is \<open>2^53\<close>, the sum is
  rounded back to \<open>2^53\<close> and \<open>calculateVersion\<close> returns \<open>v9007199254740992.0.0\<close> again.
\<close>

theorem calculateVersion_rules_counterexample:
  "major (parseVersion ''v9007199254740992.0.0'') = Fin 9007199254740992
   \<and> calculateVersion ''v9007199254740992.0.0'' ''major'' False example_inputs
       = Inr ''v9007199254740992.0.0''"
proof -
  have f: "formatVersion (Fin 9007199254740992) (Fin 0) (Fin 0) None = ''v9007199254740992.0.0''"
    by (simp add: formatVersion_def numberToString_def number_eval)
  have "parseVersion (formatVersion (Fin 9007199254740992) (Fin 0) (Fin 0) None)
      = \<lparr> major = Fin 9007199254740992, minor = Fin 0, patch = Fin 0, prerelease = None \<rparr>"
    by (rule roundtrip_None) (simp_all add: representable_def numberOf_2_53 numberOf_0)
  then have p: "parseVersion ''v9007199254740992.0.0''
      = \<lparr> major = Fin 9007199254740992, minor = Fin 0, patch = Fin 0, prerelease = None \<rparr>"
    by (simp only: f)
  have "calculateVersion ''v9007199254740992.0.0'' ''major'' False example_inputs
      = Inr (formatVersion (Fin 9007199254740992) (Fin 0) (Fin 0) None)"
    by (simp add: calculateVersion_def p numberOf_2_53_1)
  with p show ?thesis by (simp add: f)
qed

text \<open>
  Claim C1, amended. When the component that the release type increments is below
  \<open>2^53\<close>, \<open>calculateVersion\<close> returns the formatted version with major+1, minor 0 and
  patch 0 of the parsed version for \<open>major\<close>, with minor+1 and patch 0 for \<open>minor\<close>, with
  patch+1 for \<open>patch\<close>; for a prerelease the text \<open>-<suffix>.<number>\<close> follows the triple.
  Any other release type gives the error \<open>Invalid release type\<close> and no version.
\<close>

theorem calculateVersion_rules:
  "(rt = ''major'' \<and> major (parseVersion v) = Fin M \<and> M < 2 ^ 53 \<longrightarrow>
      calculateVersion v rt isPre inp =
        Inr (formatVersion (Fin (M + 1)) (Fin 0) (Fin 0) None
             @ (if isPre then ''-'' @ prereleaseSuffix inp @ ''.'' @ prereleaseNumber inp else [])))
   \<and> (rt = ''minor'' \<and> minor (parseVersion v) = Fin N \<and> N < 2 ^ 53 \<longrightarrow>
      calculateVersion v rt isPre inp =
        Inr (formatVersion (major (parseVersion v)) (Fin (N + 1)) (Fin 0) None
             @ (if isPre then ''-'' @ prereleaseSuffix inp @ ''.'' @ prereleaseNumber inp else [])))
   \<and> (rt = ''patch'' \<and> patch (parseVersion v) = Fin P \<and> P < 2 ^ 53 \<longrightarrow>
      calculateVersion v rt isPre inp =
        Inr (formatVersion (major (parseVersion v)) (minor (parseVersion v)) (Fin (P + 1)) None
             @ (if isPre then ''-'' @ prereleaseSuffix inp @ ''.'' @ prereleaseNumber inp else [])))
   \<and> (rt \<noteq> ''major'' \<and> rt \<noteq> ''minor'' \<and> rt \<noteq> ''patch'' \<longrightarrow>
      calculateVersion v rt isPre inp = Inl (Error (''Invalid release type: '' @ rt)))"
proof -
  have inc: "\<And>n. 0 \<le> n \<Longrightarrow> n < 9007199254740992 \<Longrightarrow> numberOf (n + 1) = Fin (n + 1)"
    using number_add_one by simp
  show ?thesis
    using parseVersion_nonneg [of v]
    by (auto simp: calculateVersion_def Let_def formatVersion_def inc)
qed

text \<open>The rules at \<open>v1.2.3\<close>, with the examples of the specification.\<close>

theorem calculateVersion_rules_witness:
  "parseVersion ''v1.2.3'' = \<lparr>major = Fin 1, minor = Fin 2, patch = Fin 3, prerelease = None\<rparr>
   \<and> calculateVersion ''v1.2.3'' ''patch'' False example_inputs = Inr ''v1.2.4''
   \<and> calculateVersion ''v1.2.3'' ''minor'' False example_inputs = Inr ''v1.3.0''
   \<and> calculateVersion ''v1.2.3'' ''major'' False example_inputs = Inr ''v2.0.0''
   \<and> calculateVersion ''v1.2.3'' ''minor'' True example_inputs = Inr ''v1.3.0-beta.1''
   \<and> calculateVersion ''v1.2.3'' ''none'' False example_inputs
       = Inl (Error ''Invalid release type: none'')"
proof -
  let ?inp = "example_inputs"
  have p: "parseVersion ''v1.2.3'' = \<lparr>major = Fin 1, minor = Fin 2, patch = Fin 3, prerelease = None\<rparr>"
    by code_simp
  have f: "formatVersion (Fin 1) (Fin 2) (Fin 4) None = ''v1.2.4''"
    "formatVersion (Fin 1) (Fin 3) (Fin 0) None = ''v1.3.0''"
    "formatVersion (Fin 2) (Fin 0) (Fin 0) None = ''v2.0.0''"
    by code_simp+
  show ?thesis
    using calculateVersion_rules [of "''patch''" "''v1.2.3''" 1 False ?inp 2 3]
      calculateVersion_rules [of "''minor''" "''v1.2.3''" 1 False ?inp 2 3]
      calculateVersion_rules [of "''major''" "''v1.2.3''" 1 False ?inp 2 3]
      calculateVersion_rules [of "''minor''" "''v1.2.3''" 1 True ?inp 2 3]
      calculateVersion_rules [of "''none''" "''v1.2.3''" 1 False ?inp 2 3]
    by (simp add: p f example_inputs_def)
qed

text \<open>
  Claim C9. When the version text has a prerelease and \<open>isPrerelease\<close> is false,
  \<open>calculateVersion\<close> drops the prerelease: the result has none and no hyphen, and it is
  the result for every version text with the same triple, whatever its prerelease.
\<close>

theorem calculateVersion_discards_prerelease:
  assumes "prerelease (parseVersion v) \<noteq> None"
    and "rt = ''major'' \<or> rt = ''minor'' \<or> rt = ''patch''"
  shows "\<exists>r. calculateVersion v rt False inp = Inr r
     \<and> prerelease (parseVersion r) = None
     \<and> CHR ''-'' \<notin> set r
     \<and> (\<forall>v'. same_triple (parseVersion v') (parseVersion v) \<longrightarrow>
            calculateVersion v' rt False inp = Inr r)"
proof -
  let ?c = "parseVersion v"
  have nn: "nonNegative (major ?c)" "nonNegative (minor ?c)" "nonNegative (patch ?c)"
    using parseVersion_nonneg [of v] by simp_all
  { fix M N P :: number assume h: "nonNegative M" "nonNegative N" "nonNegative P"
    have nd: "CHR ''-'' \<notin> set (formatVersion M N P None)"
      using triple_text_no_dash [OF h] by (simp add: formatVersion_None)
    then have "prerelease (parseVersion (formatVersion M N P None)) = None"
      by (rule parseVersion_no_dash)
    with nd have "prerelease (parseVersion (formatVersion M N P None)) = None
      \<and> CHR ''-'' \<notin> set (formatVersion M N P None)" by simp }
  note clean = this
  have zero: "nonNegative (Fin 0)" by simp
  from assms(2) show ?thesis
  proof (elim disjE)
    assume "rt = ''major''"
    then show ?thesis
      using clean [OF nonNegative_add_one [OF nn(1)] zero zero]
      by (simp add: calculateVersion_def Let_def same_triple_def)
  next
    assume "rt = ''minor''"
    then show ?thesis
      using clean [OF nn(1) nonNegative_add_one [OF nn(2)] zero]
      by (simp add: calculateVersion_def Let_def same_triple_def)
  next
    assume "rt = ''patch''"
    then show ?thesis
      using clean [OF nn(1) nn(2) nonNegative_add_one [OF nn(3)]]
      by (simp add: calculateVersion_def Let_def same_triple_def)
  qed
qed

text \<open>\<open>v1.2.3-beta.4\<close> with \<open>patch\<close> gives \<open>v1.2.4\<close>, as \<open>v1.2.3\<close> does.\<close>

theorem calculateVersion_discards_prerelease_witness:
  "prerelease (parseVersion ''v1.2.3-beta.4'') = Some ''beta.4''
   \<and> calculateVersion ''v1.2.3-beta.4'' ''patch'' False example_inputs = Inr ''v1.2.4''
   \<and> prerelease (parseVersion ''v1.2.4'') = None
   \<and> CHR ''-'' \<notin> set ''v1.2.4''
   \<and> same_triple (parseVersion ''v1.2.3'') (parseVersion ''v1.2.3-beta.4'')
   \<and> calculateVersion ''v1.2.3'' ''patch'' False example_inputs = Inr ''v1.2.4''"
proof -
  have p: "parseVersion ''v1.2.3-beta.4''
      = \<lparr>major = Fin 1, minor = Fin 2, patch = Fin 3, prerelease = Some ''beta.4''\<rparr>"
    "parseVersion ''v1.2.3'' = \<lparr>major = Fin 1, minor = Fin 2, patch = Fin 3, prerelease = None\<rparr>"
    by code_simp+
  have c: "calculateVersion ''v1.2.3-beta.4'' ''patch'' False example_inputs = Inr ''v1.2.4''"
    by code_simp
  have same: "same_triple (parseVersion ''v1.2.3'') (parseVersion ''v1.2.3-beta.4'')"
    by (simp add: p same_triple_def)
  obtain r where r: "calculateVersion ''v1.2.3-beta.4'' ''patch'' False example_inputs = Inr r"
    "prerelease (parseVersion r) = None" "CHR ''-'' \<notin> set r"
    "\<forall>v'. same_triple (parseVersion v') (parseVersion ''v1.2.3-beta.4'') \<longrightarrow>
        calculateVersion v' ''patch'' False example_inputs = Inr r"
    using calculateVersion_discards_prerelease [of "''v1.2.3-beta.4''" "''patch''" example_inputs]
    by (auto simp: p)
  from r(1) c have "r = ''v1.2.4''" by simp
  with r same c p show ?thesis by auto
qed

subsection \<open>The comparison of versions\<close>

text \<open>
  Claim C3 says that \<open>compareVersions\<close> returns \<open>-1\<close>, \<open>0\<close> or \<open>1\<close>. It returns the
  difference of the first components that differ: \<open>v3.0.0\<close> against \<open>v1.0.0\<close> gives \<open>2\<close>,
  whatever \<open>localeCompare\<close> is.
\<close>

theorem compareVersions_range_counterexample:
  "\<forall>localeCompare. compareVersions localeCompare ''v3.0.0'' ''v1.0.0'' = Fin 2
      \<and> compareVersions localeCompare ''v3.0.0'' ''v1.0.0'' \<notin> {Fin (- 1), Fin 0, Fin 1}"
proof -
  have "parseVersion ''v3.0.0'' = \<lparr>major = Fin 3, minor = Fin 0, patch = Fin 0, prerelease = None\<rparr>"
    "parseVersion ''v1.0.0'' = \<lparr>major = Fin 1, minor = Fin 0, patch = Fin 0, prerelease = None\<rparr>"
    by code_simp+
  then show ?thesis by (simp add: compareVersions_def strictNotEqual_def numberOf_small)
qed

text \<open>
  Claim C3, amended. When the triples of the two versions differ, \<open>compareVersions\<close>
  returns the difference of the first components that differ, major before minor before
  patch: a Number that is neither zero nor \<open>NaN\<close>, and the difference of the integers
  when both components are below \<open>2^53\<close>. When the triples are equal it returns \<open>-1\<close>,
  \<open>0\<close> or \<open>1\<close>, provided \<open>localeCompare\<close> returns one of these.
\<close>

theorem compareVersions_result:
  assumes "\<And>x y. localeCompare x y \<in> {Fin (- 1), Fin 0, Fin 1}"
  shows "(same_triple (parseVersion a) (parseVersion b) \<longrightarrow>
            compareVersions localeCompare a b \<in> {Fin (- 1), Fin 0, Fin 1})
     \<and> (major (parseVersion a) \<noteq> major (parseVersion b) \<longrightarrow>
            compareVersions localeCompare a b
              = number_sub (major (parseVersion a)) (major (parseVersion b)))
     \<and> (major (parseVersion a) = major (parseVersion b)
          \<and> minor (parseVersion a) \<noteq> minor (parseVersion b) \<longrightarrow>
            compareVersions localeCompare a b
              = number_sub (minor (parseVersion a)) (minor (parseVersion b)))
     \<and> (major (parseVersion a) = major (parseVersion b)
          \<and> minor (parseVersion a) = minor (parseVersion b)
          \<and> patch (parseVersion a) \<noteq> patch (parseVersion b) \<longrightarrow>
            compareVersions localeCompare a b
              = number_sub (patch (parseVersion a)) (patch (parseVersion b)))
     \<and> (\<not> same_triple (parseVersion a) (parseVersion b) \<longrightarrow>
            compareVersions localeCompare a b \<noteq> Fin 0
            \<and> compareVersions localeCompare a b \<noteq> NaN)
     \<and> (\<forall>m n. 0 \<le> m \<and> m < 2 ^ 53 \<and> 0 \<le> n \<and> n < 2 ^ 53 \<longrightarrow>
            number_sub (Fin m) (Fin n) = Fin (m - n))"
proof -
  let ?a = "parseVersion a" and ?b = "parseVersion b"
  have nn: "major ?a \<noteq> NaN" "minor ?a \<noteq> NaN" "patch ?a \<noteq> NaN"
    "major ?b \<noteq> NaN" "minor ?b \<noteq> NaN" "patch ?b \<noteq> NaN"
    using parseVersion_nonneg [of a] parseVersion_nonneg [of b]
    by (auto dest: nonNegative_not_NaN)
  have same: "same_triple ?a ?b \<longrightarrow> compareVersions localeCompare a b \<in> {Fin (- 1), Fin 0, Fin 1}"
    using assms [of "the (prerelease ?a)" "the (prerelease ?b)"]
    by (simp add: compareVersions_def same_triple_def Let_def strictNotEqual_def nn)
  have ma: "major ?a \<noteq> major ?b \<longrightarrow>
      compareVersions localeCompare a b = number_sub (major ?a) (major ?b)"
    by (simp add: compareVersions_def Let_def strictNotEqual_def nn)
  have mi: "major ?a = major ?b \<and> minor ?a \<noteq> minor ?b \<longrightarrow>
      compareVersions localeCompare a b = number_sub (minor ?a) (minor ?b)"
    by (simp add: compareVersions_def Let_def strictNotEqual_def nn)
  have pa: "major ?a = major ?b \<and> minor ?a = minor ?b \<and> patch ?a \<noteq> patch ?b \<longrightarrow>
      compareVersions localeCompare a b = number_sub (patch ?a) (patch ?b)"
    by (simp add: compareVersions_def Let_def strictNotEqual_def nn)
  have nz: "\<not> same_triple ?a ?b \<longrightarrow>
      compareVersions localeCompare a b \<noteq> Fin 0 \<and> compareVersions localeCompare a b \<noteq> NaN"
    using ma mi pa nn number_sub_nonzero [of "major ?a" "major ?b"]
      number_sub_nonzero [of "minor ?a" "minor ?b"] number_sub_nonzero [of "patch ?a" "patch ?b"]
    unfolding same_triple_def by metis
  have ex: "\<forall>m n. 0 \<le> m \<and> m < 2 ^ 53 \<and> 0 \<le> n \<and> n < 2 ^ 53 \<longrightarrow>
      number_sub (Fin m) (Fin n) = Fin (m - n)"
    using number_sub_exact by blast
  from same ma mi pa nz ex show ?thesis by (intro conjI)
qed

lemma codeUnitCompare_range: "codeUnitCompare x y \<in> {Fin (- 1), Fin 0, Fin 1}"
  by (induction x y rule: codeUnitCompare.induct) auto

lemma codeUnitCompare_refl: "codeUnitCompare x x = Fin 0"
  by (induction x) auto

text \<open>The four cases with the code unit comparison for \<open>localeCompare\<close>.\<close>

theorem compareVersions_result_witness:
  "compareVersions codeUnitCompare ''v1.0.0-beta.1'' ''v1.0.0-beta.2'' = Fin (- 1)
   \<and> compareVersions codeUnitCompare ''v1.0.0-beta.1'' ''v1.0.0-beta.2'' \<in> {Fin (- 1), Fin 0, Fin 1}
   \<and> compareVersions codeUnitCompare ''v1.0.0'' ''v4.0.0'' = Fin (- 3)
   \<and> compareVersions codeUnitCompare ''v1.7.0'' ''v1.2.0'' = Fin 5
   \<and> compareVersions codeUnitCompare ''v1.2.9'' ''v1.2.3'' = Fin 6
   \<and> compareVersions codeUnitCompare ''v1.2.9'' ''v1.2.3'' \<noteq> Fin 0"
proof -
  have p: "parseVersion ''v1.0.0-beta.1'' = \<lparr>major = Fin 1, minor = Fin 0, patch = Fin 0, prerelease = Some ''beta.1''\<rparr>"
    "parseVersion ''v1.0.0-beta.2'' = \<lparr>major = Fin 1, minor = Fin 0, patch = Fin 0, prerelease = Some ''beta.2''\<rparr>"
    "parseVersion ''v1.0.0'' = \<lparr>major = Fin 1, minor = Fin 0, patch = Fin 0, prerelease = None\<rparr>"
    "parseVersion ''v4.0.0'' = \<lparr>major = Fin 4, minor = Fin 0, patch = Fin 0, prerelease = None\<rparr>"
    "parseVersion ''v1.7.0'' = \<lparr>major = Fin 1, minor = Fin 7, patch = Fin 0, prerelease = None\<rparr>"
    "parseVersion ''v1.2.0'' = \<lparr>major = Fin 1, minor = Fin 2, patch = Fin 0, prerelease = None\<rparr>"
    "parseVersion ''v1.2.9'' = \<lparr>major = Fin 1, minor = Fin 2, patch = Fin 9, prerelease = None\<rparr>"
    "parseVersion ''v1.2.3'' = \<lparr>major = Fin 1, minor = Fin 2, patch = Fin 3, prerelease = None\<rparr>"
    by code_simp+
  have e: "compareVersions codeUnitCompare ''v1.0.0-beta.1'' ''v1.0.0-beta.2'' = Fin (- 1)"
    by code_simp
  note t1 = compareVersions_result [of codeUnitCompare "''v1.0.0-beta.1''" "''v1.0.0-beta.2''", OF codeUnitCompare_range]
  note t2 = compareVersions_result [of codeUnitCompare "''v1.0.0''" "''v4.0.0''", OF codeUnitCompare_range]
  note t3 = compareVersions_result [of codeUnitCompare "''v1.7.0''" "''v1.2.0''", OF codeUnitCompare_range]
  note t4 = compareVersions_result [of codeUnitCompare "''v1.2.9''" "''v1.2.3''", OF codeUnitCompare_range]
  from t1 have a: "compareVersions codeUnitCompare ''v1.0.0-beta.1'' ''v1.0.0-beta.2'' \<in> {Fin (- 1), Fin 0, Fin 1}"
    by (simp add: p same_triple_def)
  from t2 have b: "compareVersions codeUnitCompare ''v1.0.0'' ''v4.0.0'' = Fin (- 3)"
    by (simp add: p numberOf_small)
  from t3 have c: "compareVersions codeUnitCompare ''v1.7.0'' ''v1.2.0'' = Fin 5"
    by (simp add: p numberOf_small)
  from t4 have d: "compareVersions codeUnitCompare ''v1.2.9'' ''v1.2.3'' = Fin 6"
    by (simp add: p numberOf_small)
  from t4 have f: "compareVersions codeUnitCompare ''v1.2.9'' ''v1.2.3'' \<noteq> Fin 0"
    by (simp add: p same_triple_def numberOf_small)
  from e a b c d f show ?thesis by (intro conjI)
qed

text \<open>
  Claim C6. \<open>compareVersions\<close> of a version with itself is \<open>0\<close>; a version whose triple is
  smaller in the lexicographic order compares negative and one whose triple is larger
  compares positive; with equal triples a version with a prerelease comes strictly before
  one without; so \<open>v1.0.0-beta.1\<close> comes before \<open>v1.0.0\<close>. What is asked of
  \<open>localeCompare\<close> is that it finds a string equal to itself.
\<close>

theorem compareVersions_order:
  assumes "\<And>s. localeCompare s s = Fin 0"
  shows "compareVersions localeCompare v v = Fin 0
     \<and> (triple_less (parseVersion a) (parseVersion b) \<longrightarrow>
          number_less (compareVersions localeCompare a b) (Fin 0))
     \<and> (triple_less (parseVersion b) (parseVersion a) \<longrightarrow>
          number_less (Fin 0) (compareVersions localeCompare a b))
     \<and> (same_triple (parseVersion a) (parseVersion b)
          \<and> truthy (prerelease (parseVersion a)) \<and> \<not> truthy (prerelease (parseVersion b)) \<longrightarrow>
            compareVersions localeCompare a b = Fin (- 1)
            \<and> compareVersions localeCompare b a = Fin 1)
     \<and> number_less (compareVersions localeCompare ''v1.0.0-beta.1'' ''v1.0.0'') (Fin 0)"
proof -
  let ?a = "parseVersion a" and ?b = "parseVersion b" and ?v = "parseVersion v"
  have p: "parseVersion ''v1.0.0-beta.1'' = \<lparr>major = Fin 1, minor = Fin 0, patch = Fin 0, prerelease = Some ''beta.1''\<rparr>"
    "parseVersion ''v1.0.0'' = \<lparr>major = Fin 1, minor = Fin 0, patch = Fin 0, prerelease = None\<rparr>"
    by code_simp+
  have nn: "major ?a \<noteq> NaN" "minor ?a \<noteq> NaN" "patch ?a \<noteq> NaN"
    "major ?b \<noteq> NaN" "minor ?b \<noteq> NaN" "patch ?b \<noteq> NaN"
    "major ?v \<noteq> NaN" "minor ?v \<noteq> NaN" "patch ?v \<noteq> NaN"
    using parseVersion_nonneg [of a] parseVersion_nonneg [of b] parseVersion_nonneg [of v]
    by (auto dest: nonNegative_not_NaN)
  have refl: "compareVersions localeCompare v v = Fin 0"
    using assms by (simp add: compareVersions_def Let_def strictNotEqual_def nn)
  have less: "triple_less ?a ?b \<longrightarrow> number_less (compareVersions localeCompare a b) (Fin 0)"
    by (auto simp: compareVersions_def Let_def triple_less_def strictNotEqual_def nn
        dest: number_less_neq intro: number_sub_negative)
  have greater: "triple_less ?b ?a \<longrightarrow> number_less (Fin 0) (compareVersions localeCompare a b)"
    by (auto simp: compareVersions_def Let_def triple_less_def strictNotEqual_def nn
        dest: number_less_neq intro: number_sub_positive)
  have pre: "same_triple ?a ?b \<and> truthy (prerelease ?a) \<and> \<not> truthy (prerelease ?b) \<longrightarrow>
      compareVersions localeCompare a b = Fin (- 1) \<and> compareVersions localeCompare b a = Fin 1"
    by (simp add: compareVersions_def Let_def same_triple_def strictNotEqual_def nn)
  have ex: "number_less (compareVersions localeCompare ''v1.0.0-beta.1'' ''v1.0.0'') (Fin 0)"
    by (simp add: compareVersions_def p truthy_def strictNotEqual_def)
  from refl less greater pre ex show ?thesis by (intro conjI)
qed

text \<open>The order on concrete versions, with the code unit comparison.\<close>

theorem compareVersions_order_witness:
  "compareVersions codeUnitCompare ''v1.2.3-rc.1'' ''v1.2.3-rc.1'' = Fin 0
   \<and> triple_less (parseVersion ''v1.9.9'') (parseVersion ''v2.0.0'')
   \<and> number_less (compareVersions codeUnitCompare ''v1.9.9'' ''v2.0.0'') (Fin 0)
   \<and> number_less (Fin 0) (compareVersions codeUnitCompare ''v2.0.0'' ''v1.9.9'')
   \<and> same_triple (parseVersion ''v1.0.0-beta.1'') (parseVersion ''v1.0.0'')
   \<and> truthy (prerelease (parseVersion ''v1.0.0-beta.1''))
   \<and> \<not> truthy (prerelease (parseVersion ''v1.0.0''))
   \<and> compareVersions codeUnitCompare ''v1.0.0-beta.1'' ''v1.0.0'' = Fin (- 1)
   \<and> compareVersions codeUnitCompare ''v1.0.0'' ''v1.0.0-beta.1'' = Fin 1"
proof -
  have p: "parseVersion ''v1.0.0-beta.1'' = \<lparr>major = Fin 1, minor = Fin 0, patch = Fin 0, prerelease = Some ''beta.1''\<rparr>"
    "parseVersion ''v1.0.0'' = \<lparr>major = Fin 1, minor = Fin 0, patch = Fin 0, prerelease = None\<rparr>"
    "parseVersion ''v1.9.9'' = \<lparr>major = Fin 1, minor = Fin 9, patch = Fin 9, prerelease = None\<rparr>"
    "parseVersion ''v2.0.0'' = \<lparr>major = Fin 2, minor = Fin 0, patch = Fin 0, prerelease = None\<rparr>"
    by code_simp+
  show ?thesis
    using compareVersions_order [of codeUnitCompare "''v1.2.3-rc.1''" "''v1.9.9''" "''v2.0.0''", OF codeUnitCompare_refl]
      compareVersions_order [of codeUnitCompare "''v1.2.3-rc.1''" "''v2.0.0''" "''v1.9.9''", OF codeUnitCompare_refl]
      compareVersions_order [of codeUnitCompare "''v1.2.3-rc.1''" "''v1.0.0-beta.1''" "''v1.0.0''", OF codeUnitCompare_refl]
    by (simp add: p same_triple_def triple_less_def truthy_def)
qed

subsection \<open>Formatting and parsing\<close>

text \<open>
  Claim C5 says that parsing the formatted version gives back \<open>M\<close>, \<open>N\<close>, \<open>P\<close> for all
  non-negative integers. From \<open>10^21\<close> on a Number is printed in exponent notation:
  \<open>formatVersion(1e21, 0, 0)\<close> is \<open>v1e+21.0.0\<close>, whose major component parses as \<open>1\<close>.
\<close>

theorem format_parse_roundtrip_counterexample:
  "representable (10 ^ 21)
   \<and> formatVersion (Fin (10 ^ 21)) (Fin 0) (Fin 0) None = ''v1e+21.0.0''
   \<and> parseVersion (formatVersion (Fin (10 ^ 21)) (Fin 0) (Fin 0) None)
       = \<lparr> major = Fin 1, minor = Fin 0, patch = Fin 0, prerelease = None \<rparr>
   \<and> parseVersion (formatVersion (Fin (10 ^ 21)) (Fin 0) (Fin 0) None)
       \<noteq> \<lparr> major = Fin (10 ^ 21), minor = Fin 0, patch = Fin 0, prerelease = None \<rparr>"
proof -
  have r: "representable 1000000000000000000000"
    by (simp add: representable_def numberOf_10_21)
  have big: "numberToString (Fin 1000000000000000000000) = ''1e+21''"
    by (simp add: numberToString_def number_eval stripTrailingZeros_def digitsOf.simps)
  have zero: "numberToString (Fin 0) = ''0''"
    by code_simp
  have f: "formatVersion (Fin 1000000000000000000000) (Fin 0) (Fin 0) None = ''v1e+21.0.0''"
    by (simp add: formatVersion_def big zero)
  have p: "parseVersion ''v1e+21.0.0''
      = \<lparr> major = Fin 1, minor = Fin 0, patch = Fin 0, prerelease = None \<rparr>"
    by code_simp
  show ?thesis using r by (simp add: f p)
qed

text \<open>
  Claim C5, amended. For Numbers \<open>M\<close>, \<open>N\<close>, \<open>P\<close> that are non-negative integers below
  \<open>10^21\<close>, parsing the formatted version gives back \<open>M\<close>, \<open>N\<close>, \<open>P\<close> and the prerelease,
  be it \<open>null\<close> or a text that matches \<open>\w+\.\d+\<close> (any text that is not empty will do).
  \<open>formatVersion\<close> always writes the \<open>v\<close> and the three numbers with dots between them,
  and appends \<open>-<prerelease>\<close> only for a prerelease that is neither \<open>null\<close> nor empty.
  Every integer below \<open>2^53\<close> is a Number.
\<close>

theorem format_parse_roundtrip:
  assumes "0 \<le> M" and "0 \<le> N" and "0 \<le> P"
    and "M < 10 ^ 21" and "N < 10 ^ 21" and "P < 10 ^ 21"
    and "representable M" and "representable N" and "representable P"
  shows "parseVersion (formatVersion (Fin M) (Fin N) (Fin P) None)
           = \<lparr> major = Fin M, minor = Fin N, patch = Fin P, prerelease = None \<rparr>
     \<and> (match_word_dot_digits p \<noteq> None \<or> p \<noteq> [] \<longrightarrow>
          parseVersion (formatVersion (Fin M) (Fin N) (Fin P) (Some p))
            = \<lparr> major = Fin M, minor = Fin N, patch = Fin P, prerelease = Some p \<rparr>)
     \<and> formatVersion (Fin M) (Fin N) (Fin P) None
           = ''v'' @ numberToString (Fin M) @ ''.'' @ numberToString (Fin N) @ ''.''
             @ numberToString (Fin P)
     \<and> formatVersion (Fin M) (Fin N) (Fin P) (Some []) = formatVersion (Fin M) (Fin N) (Fin P) None
     \<and> (p \<noteq> [] \<longrightarrow> formatVersion (Fin M) (Fin N) (Fin P) (Some p)
           = formatVersion (Fin M) (Fin N) (Fin P) None @ ''-'' @ p)
     \<and> (\<forall>n. \<bar>n\<bar> < 2 ^ 53 \<longrightarrow> representable n)"
proof -
  have "match_word_dot_digits p \<noteq> None \<Longrightarrow> p \<noteq> []"
    using match_nonempty [of p] by auto
  moreover have "\<forall>n. \<bar>n\<bar> < 2 ^ 53 \<longrightarrow> representable n"
    using representable_small by blast
  ultimately show ?thesis
    using roundtrip_None [OF assms] roundtrip_Some [OF assms, of p]
    by (auto simp: formatVersion_def)
qed

text \<open>The round trip at \<open>1, 2, 3\<close> and \<open>beta.1\<close>.\<close>

theorem format_parse_roundtrip_witness:
  "representable 1 \<and> representable 2 \<and> representable 3
   \<and> parseVersion (formatVersion (Fin 1) (Fin 2) (Fin 3) None)
      = \<lparr> major = Fin 1, minor = Fin 2, patch = Fin 3, prerelease = None \<rparr>
   \<and> match_word_dot_digits ''beta.1'' = Some (''beta'', ''1'')
   \<and> parseVersion (formatVersion (Fin 1) (Fin 2) (Fin 3) (Some ''beta.1''))
      = \<lparr> major = Fin 1, minor = Fin 2, patch = Fin 3, prerelease = Some ''beta.1'' \<rparr>
   \<and> formatVersion (Fin 1) (Fin 2) (Fin 3) None = ''v1.2.3''
   \<and> formatVersion (Fin 1) (Fin 2) (Fin 3) (Some []) = ''v1.2.3''
   \<and> formatVersion (Fin 1) (Fin 2) (Fin 3) (Some ''beta.1'') = ''v1.2.3-beta.1''"
proof -
  have m: "match_word_dot_digits ''beta.1'' = Some (''beta'', ''1'')"
    by code_simp
  have f: "formatVersion (Fin 1) (Fin 2) (Fin 3) None = ''v1.2.3''"
    "formatVersion (Fin 1) (Fin 2) (Fin 3) (Some ''beta.1'') = ''v1.2.3-beta.1''"
    by code_simp+
  have g: "formatVersion (Fin 1) (Fin 2) (Fin 3) (Some []) = ''v1.2.3''"
    by code_simp
  have h: "(0::int) \<le> 1" "(0::int) \<le> 2" "(0::int) \<le> 3"
    "(1::int) < 10 ^ 21" "(2::int) < 10 ^ 21" "(3::int) < 10 ^ 21"
    by simp_all
  have r: "representable 1" "representable 2" "representable 3"
    by (simp_all add: representable_def numberOf_small)
  note t = format_parse_roundtrip [OF h r, of "''beta.1''"]
  from t have a: "parseVersion (formatVersion (Fin 1) (Fin 2) (Fin 3) None)
      = \<lparr> major = Fin 1, minor = Fin 2, patch = Fin 3, prerelease = None \<rparr>"
    by (rule conjunct1)
  have "match_word_dot_digits ''beta.1'' \<noteq> None \<or> ''beta.1'' \<noteq> []"
    by simp
  note b = t [THEN conjunct2, THEN conjunct1, THEN mp, OF this]
  from r a b show ?thesis
    by (simp add: m f g)
qed

subsection \<open>Continuing a prerelease\<close>

text \<open>
  Claim C10. \<open>parseExistingPrerelease\<close> finds a prerelease exactly when the text between
  the first hyphen and the second one (or the end) is a word, a dot and digits. For every
  other version text \<open>incrementPrerelease\<close> returns the whole text followed by
  \<open>-<suffix>.<number>\<close>: \<open>v1.0.0-beta\<close> becomes \<open>v1.0.0-beta-rc.1\<close>.
\<close>

theorem incrementPrerelease_unrecognised:
  "(parseExistingPrerelease v \<noteq> None \<longleftrightarrow>
      (\<exists>a w d rest. v = a @ ''-'' @ w @ ''.'' @ d @ rest
        \<and> CHR ''-'' \<notin> set a
        \<and> w \<noteq> [] \<and> list_all isWordChar w
        \<and> d \<noteq> [] \<and> list_all isDigit d
        \<and> (rest = [] \<or> hd rest = CHR ''-'')))
   \<and> (parseExistingPrerelease v = None \<longrightarrow>
        incrementPrerelease v inp = v @ ''-'' @ prereleaseSuffix inp @ ''.'' @ prereleaseNumber inp)
   \<and> incrementPrerelease ''v1.0.0-beta'' (inp \<lparr> prereleaseSuffix := ''rc'', prereleaseNumber := ''1'' \<rparr>)
        = ''v1.0.0-beta-rc.1''"
proof -
  have "parseExistingPrerelease v \<noteq> None \<longleftrightarrow> (\<exists>e. parseExistingPrerelease v = Some e)"
    by auto
  also have "\<dots> \<longleftrightarrow> (\<exists>a w d rest. v = a @ ''-'' @ w @ ''.'' @ d @ rest
        \<and> CHR ''-'' \<notin> set a
        \<and> w \<noteq> [] \<and> list_all isWordChar w
        \<and> d \<noteq> [] \<and> list_all isDigit d
        \<and> (rest = [] \<or> hd rest = CHR ''-''))"
    unfolding parseExistingPrerelease_iff by blast
  finally have shape: "parseExistingPrerelease v \<noteq> None \<longleftrightarrow>
      (\<exists>a w d rest. v = a @ ''-'' @ w @ ''.'' @ d @ rest
        \<and> CHR ''-'' \<notin> set a
        \<and> w \<noteq> [] \<and> list_all isWordChar w
        \<and> d \<noteq> [] \<and> list_all isDigit d
        \<and> (rest = [] \<or> hd rest = CHR ''-''))" .
  have fresh: "parseExistingPrerelease v = None \<longrightarrow>
        incrementPrerelease v inp = v @ ''-'' @ prereleaseSuffix inp @ ''.'' @ prereleaseNumber inp"
    by (simp add: incrementPrerelease_def)
  have "parseExistingPrerelease ''v1.0.0-beta'' = None"
    by code_simp
  then have ex: "incrementPrerelease ''v1.0.0-beta'' (inp \<lparr> prereleaseSuffix := ''rc'', prereleaseNumber := ''1'' \<rparr>)
        = ''v1.0.0-beta-rc.1''"
    by (simp add: incrementPrerelease_def)
  from shape fresh ex show ?thesis by blast
qed

text \<open>A text with a recognised prerelease, and two without.\<close>

theorem incrementPrerelease_unrecognised_witness:
  "parseExistingPrerelease ''v1.3.0-beta.1'' \<noteq> None
   \<and> parseExistingPrerelease ''v1.3.0'' = None
   \<and> incrementPrerelease ''v1.3.0''
        (example_inputs \<lparr> prereleaseSuffix := ''rc'' \<rparr>)
      = ''v1.3.0-rc.1''
   \<and> incrementPrerelease ''v1.0.0-beta''
        (example_inputs \<lparr> prereleaseSuffix := ''rc'' \<rparr>)
      = ''v1.0.0-beta-rc.1''"
proof -
  let ?inp = "(example_inputs \<lparr> prereleaseSuffix := ''rc'' \<rparr>)"
  have shape: "\<exists>a w d rest. ''v1.3.0-beta.1'' = a @ ''-'' @ w @ ''.'' @ d @ rest
        \<and> CHR ''-'' \<notin> set a
        \<and> w \<noteq> [] \<and> list_all isWordChar w
        \<and> d \<noteq> [] \<and> list_all isDigit d
        \<and> (rest = [] \<or> hd rest = CHR ''-'')"
    by (rule exI [of _ "''v1.3.0''"], rule exI [of _ "''beta''"], rule exI [of _ "''1''"],
        rule exI [of _ "[]"]) (simp add: isWordChar_def isDigit_def)
  have none: "parseExistingPrerelease ''v1.3.0'' = None"
    by code_simp
  note t1 = incrementPrerelease_unrecognised [of "''v1.3.0-beta.1''" ?inp]
  note t2 = incrementPrerelease_unrecognised [of "''v1.3.0''" ?inp]
  from t1 shape have a: "parseExistingPrerelease ''v1.3.0-beta.1'' \<noteq> None"
    by blast
  from t2 none have b: "incrementPrerelease ''v1.3.0'' ?inp = ''v1.3.0-rc.1''"
    by (simp add: example_inputs_def)
  from t2 have c: "incrementPrerelease ''v1.0.0-beta'' ?inp = ''v1.0.0-beta-rc.1''"
    by (simp add: example_inputs_def)
  from a none b c show ?thesis by simp
qed

text \<open>
  Claim C4 says that with a prerelease of another suffix the new prerelease is appended
  to the current triple. The code appends it to the whole text, the old prerelease
  included: for \<open>v1.3.0-beta.1\<close> and the suffix \<open>rc\<close> it returns \<open>v1.3.0-beta.1-rc.1\<close>,
  not \<open>v1.3.0-rc.1\<close>.
\<close>

theorem incrementPrerelease_other_suffix:
  "incrementPrerelease ''v1.3.0-beta.1''
      (example_inputs \<lparr> prereleaseSuffix := ''rc'' \<rparr>)
     = ''v1.3.0-beta.1-rc.1''"
  by code_simp

subsection \<open>The tag step on the git repository\<close>

lemma map_of_without_tag: "map_of (without_tag n ts) n = None"
  by (induction ts) (auto simp: without_tag_def)

lemma without_tag_absent: "map_of ts n = None \<Longrightarrow> without_tag n ts = ts"
  by (induction ts) (auto simp: without_tag_def split: if_splits)

lemma without_tag_again: "without_tag n ((n, c) # without_tag n ts) = without_tag n ts"
  by (simp add: without_tag_def)

lemma tags_named_fresh: "tags_named n ((n, c) # without_tag n ts) = [(n, c)]"
  by (induction ts) (auto simp: tags_named_def without_tag_def)

lemma can_push_head_tags:
  "can_push_head (r \<lparr> local_tags := x \<rparr>) = can_push_head r"
  "can_push_head (r \<lparr> remote_tags := y \<rparr>) = can_push_head r"
  by (simp_all add: can_push_head_def)

lemma tag_step_git:
  assumes "execSync h = execGit"
  shows "fst (createAndPushTag h n s)
           = (if can_push_head (repo (world s)) then Inr () else Inl (command_failed NonFastForward))
     \<and> world (snd (createAndPushTag h n s)) = (world s) \<lparr> repo := retagged n (repo (world s)) \<rparr>
     \<and> commands_of (events_of (createAndPushTag h n) s)
           = [GitTagDelete n, GitPushDeleteTag n, GitTagAnnotate n (''Release '' @ n), GitPushHead]
             @ (if can_push_head (repo (world s)) then [GitPushTag n] else [])"
proof -
  obtain r q a where w: "world s = \<lparr> repo = r, calls_left = q, asset_contents = a \<rparr>"
    by (cases "world s") auto
  show ?thesis
  proof (cases "map_of (local_tags r) n")
    case None
    note l = this
    show ?thesis
    proof (cases "map_of (remote_tags r) n")
      case None
      with l w assms show ?thesis
        by (simp add: createAndPushTag_def seq_def andThen_def tryCatch_def exec_def call_def
            info_def emit_def ret_def execGit_def events_of_def commands_of_def List.map_filter_simps retagged_def without_tag_absent can_push_head_tags)
    next
      case (Some c)
      with l w assms show ?thesis
        by (simp add: createAndPushTag_def seq_def andThen_def tryCatch_def exec_def call_def
            info_def emit_def ret_def execGit_def events_of_def commands_of_def List.map_filter_simps retagged_def without_tag_absent map_of_without_tag can_push_head_tags)
    qed
  next
    case (Some d)
    note l = this
    show ?thesis
    proof (cases "map_of (remote_tags r) n")
      case None
      with l w assms show ?thesis
        by (simp add: createAndPushTag_def seq_def andThen_def tryCatch_def exec_def call_def
            info_def emit_def ret_def execGit_def events_of_def commands_of_def List.map_filter_simps retagged_def without_tag_absent map_of_without_tag can_push_head_tags)
    next
      case (Some c)
      with l w assms show ?thesis
        by (simp add: createAndPushTag_def seq_def andThen_def tryCatch_def exec_def call_def
            info_def emit_def ret_def execGit_def events_of_def commands_of_def List.map_filter_simps retagged_def without_tag_absent map_of_without_tag can_push_head_tags)
    qed
  qed
qed

lemma retagged_again:
  "can_push_head r \<Longrightarrow> retagged n (retagged n r) = retagged n r"
  by (simp add: retagged_def can_push_head_def without_tag_again)

lemma retagged_can_push: "can_push_head r \<Longrightarrow> can_push_head (retagged n r)"
  by (simp add: retagged_def can_push_head_def)


text \<open>
  Claim C2. On the git repository, the tag step run a second time for the same name at
  the same HEAD succeeds again and leaves the repository as the first run left it, with
  exactly one tag of that name in the repository and one at origin, both at HEAD. The
  step deletes the tag in the repository and at origin before it creates it, whether or
  not the deletions find a tag, so the only error it can end with is the refused push of
  the branch: no error about a tag that exists.
\<close>

theorem createAndPushTag_retry:
  assumes "execSync h = execGit"
  shows "let s1 = snd (createAndPushTag h n s); s2 = snd (createAndPushTag h n s1) in
     (fst (createAndPushTag h n s) = Inr () \<longrightarrow>
        fst (createAndPushTag h n s1) = Inr ()
        \<and> world s2 = world s1
        \<and> tags_named n (local_tags (repo (world s2))) = [(n, head_commit (repo (world s)))]
        \<and> tags_named n (remote_tags (repo (world s2))) = [(n, head_commit (repo (world s)))])
     \<and> (\<forall>e. fst (createAndPushTag h n s) = Inl e \<longrightarrow> e = command_failed NonFastForward)
     \<and> (can_push_head (repo (world s)) \<longrightarrow> fst (createAndPushTag h n s) = Inr ())
     \<and> take 3 (commands_of (events_of (createAndPushTag h n) s))
           = [GitTagDelete n, GitPushDeleteTag n, GitTagAnnotate n (''Release '' @ n)]"
proof -
  define s1 where "s1 = snd (createAndPushTag h n s)"
  define s2 where "s2 = snd (createAndPushTag h n s1)"
  note t0 = tag_step_git [OF assms, of n s]
  note t1 = tag_step_git [OF assms, of n s1]
  have w1: "world s1 = (world s) \<lparr> repo := retagged n (repo (world s)) \<rparr>"
    using t0 by (simp add: s1_def)
  have w2: "world s2 = (world s1) \<lparr> repo := retagged n (repo (world s1)) \<rparr>"
    using t1 by (simp add: s2_def)
  have first: "fst (createAndPushTag h n s) = Inr () \<longleftrightarrow> can_push_head (repo (world s))"
    using t0 by simp
  have only: "\<forall>e. fst (createAndPushTag h n s) = Inl e \<longrightarrow> e = command_failed NonFastForward"
    using t0 by (simp split: if_splits)
  have order: "take 3 (commands_of (events_of (createAndPushTag h n) s))
           = [GitTagDelete n, GitPushDeleteTag n, GitTagAnnotate n (''Release '' @ n)]"
    using t0 by simp
  { assume ok: "can_push_head (repo (world s))"
    then have c1: "can_push_head (repo (world s1))" by (simp add: w1 retagged_can_push)
    have "fst (createAndPushTag h n s1) = Inr ()" using t1 c1 by simp
    moreover have "world s2 = world s1" using ok by (simp add: w2 w1 retagged_again)
    moreover have "tags_named n (local_tags (repo (world s1))) = [(n, head_commit (repo (world s)))]"
      "tags_named n (remote_tags (repo (world s1))) = [(n, head_commit (repo (world s)))]"
      using ok by (simp_all add: w1 retagged_def tags_named_fresh)
    ultimately have "fst (createAndPushTag h n s1) = Inr ()
        \<and> world s2 = world s1
        \<and> tags_named n (local_tags (repo (world s2))) = [(n, head_commit (repo (world s)))]
        \<and> tags_named n (remote_tags (repo (world s2))) = [(n, head_commit (repo (world s)))]"
      by simp }
  with first only order show ?thesis
    unfolding Let_def s1_def [symmetric] s2_def [symmetric] by blast
qed

text \<open>
  The example repository, where a tag \<open>v1.2.4\<close> is left from an earlier run: both runs
  succeed and the tag is at HEAD, commit 5. With origin's branch at a commit that is no
  ancestor of HEAD the step ends with the refused push.
\<close>

theorem createAndPushTag_retry_witness:
  "execSync example_host = execGit
   \<and> fst (createAndPushTag example_host ''v1.2.4'' (start example_outside)) = Inr ()
   \<and> fst (createAndPushTag example_host ''v1.2.4''
             (snd (createAndPushTag example_host ''v1.2.4'' (start example_outside)))) = Inr ()
   \<and> tags_named ''v1.2.4'' (local_tags (repo (world
        (snd (createAndPushTag example_host ''v1.2.4''
             (snd (createAndPushTag example_host ''v1.2.4'' (start example_outside))))))))
       = [(''v1.2.4'', 5)]
   \<and> tags_named ''v1.2.4'' (remote_tags (repo (world
        (snd (createAndPushTag example_host ''v1.2.4''
             (snd (createAndPushTag example_host ''v1.2.4'' (start example_outside))))))))
       = [(''v1.2.4'', 5)]
   \<and> fst (createAndPushTag example_host ''v1.2.4''
          (start (example_outside \<lparr> repo := (repo example_outside) \<lparr> remote_branch := 9 \<rparr> \<rparr>)))
       = Inl (command_failed NonFastForward)"
proof -
  let ?behind = "start (example_outside \<lparr> repo := (repo example_outside) \<lparr> remote_branch := 9 \<rparr> \<rparr>)"
  have h: "execSync example_host = execGit"
    by (simp add: example_host_def)
  have p: "can_push_head (repo (world (start example_outside)))"
    by (simp add: can_push_head_def start_def example_outside_def)
  have c: "head_commit (repo (world (start example_outside))) = 5"
    by (simp add: start_def example_outside_def)
  have refused: "\<exists>e. fst (createAndPushTag example_host ''v1.2.4'' ?behind) = Inl e"
    by (simp add: createAndPushTag_def seq_def andThen_def tryCatch_def ret_def exec_def call_def
        info_def emit_def example_host_def execGit_def example_outside_def start_def
        can_push_head_def without_tag_def)
  note t = createAndPushTag_retry [OF h, of "''v1.2.4''" "start example_outside", unfolded Let_def c]
  note u = createAndPushTag_retry [OF h, of "''v1.2.4''" ?behind, unfolded Let_def]
  from t p have first: "fst (createAndPushTag example_host ''v1.2.4'' (start example_outside)) = Inr ()"
    by blast
  from u refused have behind:
    "fst (createAndPushTag example_host ''v1.2.4'' ?behind) = Inl (command_failed NonFastForward)"
    by blast
  from t first behind show ?thesis
    by (intro conjI) (rule h, blast+)
qed

subsection \<open>What code adds to the trace, and whether it returns\<close>

lemma emitsI:
  assumes "\<And>s. \<exists>es. trace (snd (m s)) = trace s @ es \<and> list_all P es"
  shows "emits P m"
  using assms by (simp add: emits_def)

lemma emitsD:
  assumes "emits P m"
  obtains es where "trace (snd (m s)) = trace s @ es" and "list_all P es"
  using assms unfolding emits_def by blast

lemma emits_events:
  assumes "emits P m"
  shows "trace (snd (m s)) = trace s @ events_of m s \<and> list_all P (events_of m s)"
proof -
  obtain es where "trace (snd (m s)) = trace s @ es" and "list_all P es"
    using assms by (rule emitsD)
  then show ?thesis by (simp add: events_of_def)
qed

lemma emits_ret: "emits P (ret x)"
  by (simp add: emits_def ret_def)

lemma emits_throw: "emits P (throw e)"
  by (simp add: emits_def throw_def)

lemma emits_emit: "P e \<Longrightarrow> emits P (emit e)"
  by (simp add: emits_def emit_def)

lemma emits_call: "P e \<Longrightarrow> emits P (call e operation)"
  by (simp add: emits_def call_def split: prod.splits)

lemma emits_ask: "P e \<Longrightarrow> emits P (ask e operation)"
  by (simp add: ask_def emits_call)

lemma emits_lift: "emits P (lift r)"
  by (cases r) (simp_all add: lift_def emits_ret emits_throw)

lemma emits_andThen:
  assumes "emits P m" and "\<And>x. emits P (f x)"
  shows "emits P (andThen m f)"
proof (rule emitsI)
  fix s
  obtain es where m: "trace (snd (m s)) = trace s @ es" "list_all P es"
    using assms(1) by (rule emitsD)
  show "\<exists>es. trace (snd (andThen m f s)) = trace s @ es \<and> list_all P es"
  proof (cases "fst (m s)")
    case (Inl e)
    then have "andThen m f s = (Inl e, snd (m s))"
      by (cases "m s") (simp add: andThen_def)
    with m show ?thesis by simp
  next
    case (Inr x)
    then have a: "andThen m f s = f x (snd (m s))"
      by (cases "m s") (simp add: andThen_def)
    obtain es' where "trace (snd (f x (snd (m s)))) = trace (snd (m s)) @ es'" "list_all P es'"
      using assms(2) [of x] by (rule emitsD)
    with m a have "trace (snd (andThen m f s)) = trace s @ (es @ es') \<and> list_all P (es @ es')"
      by simp
    then show ?thesis by blast
  qed
qed

lemma emits_seq: "emits P m \<Longrightarrow> emits P n \<Longrightarrow> emits P (seq m n)"
  by (simp add: seq_def emits_andThen)

lemma emits_andThen_lift:
  assumes "\<And>x. r = Inr x \<Longrightarrow> emits P (f x)"
  shows "emits P (andThen (lift r) f)"
proof (cases r)
  case (Inl e)
  then have "andThen (lift r) f = throw e"
    by (simp add: andThen_def lift_def throw_def fun_eq_iff)
  then show ?thesis by (simp add: emits_throw)
next
  case (Inr x)
  then have "andThen (lift r) f = f x"
    by (simp add: andThen_def lift_def ret_def fun_eq_iff)
  with assms Inr show ?thesis by simp
qed

lemma emits_tryCatch:
  assumes "emits P m" and "\<And>e. emits P (h e)"
  shows "emits P (tryCatch m h)"
proof (rule emitsI)
  fix s
  obtain es where m: "trace (snd (m s)) = trace s @ es" "list_all P es"
    using assms(1) by (rule emitsD)
  show "\<exists>es. trace (snd (tryCatch m h s)) = trace s @ es \<and> list_all P es"
  proof (cases "fst (m s)")
    case (Inr x)
    then have "tryCatch m h s = (Inr x, snd (m s))"
      by (cases "m s") (simp add: tryCatch_def)
    with m show ?thesis by simp
  next
    case (Inl e)
    then have a: "tryCatch m h s = h e (snd (m s))"
      by (cases "m s") (simp add: tryCatch_def)
    obtain es' where "trace (snd (h e (snd (m s)))) = trace (snd (m s)) @ es'" "list_all P es'"
      using assms(2) [of e] by (rule emitsD)
    with m a have "trace (snd (tryCatch m h s)) = trace s @ (es @ es') \<and> list_all P (es @ es')"
      by simp
    then show ?thesis by blast
  qed
qed

lemma emits_if: "emits P a \<Longrightarrow> emits P b \<Longrightarrow> emits P (if c then a else b)"
  by simp

lemmas emits_rules =
  emits_ret emits_throw emits_lift emits_seq emits_andThen emits_tryCatch emits_if

lemma returns_ret: "returns (ret x)"
  by (simp add: returns_def ret_def)

lemma returns_emit: "returns (emit e)"
  by (simp add: returns_def emit_def)

lemma returns_andThen:
  assumes "returns m" and "\<And>x. returns (f x)"
  shows "returns (andThen m f)"
  unfolding returns_def
proof
  fix s
  obtain x where "fst (m s) = Inr x" using assms(1) unfolding returns_def by blast
  then have "andThen m f s = f x (snd (m s))"
    by (cases "m s") (simp add: andThen_def)
  then show "\<exists>y. fst (andThen m f s) = Inr y"
    using assms(2) [of x] unfolding returns_def by simp
qed

lemma returns_seq: "returns m \<Longrightarrow> returns n \<Longrightarrow> returns (seq m n)"
  by (simp add: seq_def returns_andThen)

lemma returns_tryCatch:
  assumes "\<And>e. returns (h e)"
  shows "returns (tryCatch m h)"
  unfolding returns_def
proof
  fix s
  show "\<exists>y. fst (tryCatch m h s) = Inr y"
  proof (cases "fst (m s)")
    case (Inr x)
    then show ?thesis by (cases "m s") (simp add: tryCatch_def)
  next
    case (Inl e)
    then have "tryCatch m h s = h e (snd (m s))"
      by (cases "m s") (simp add: tryCatch_def)
    then show ?thesis using assms [of e] unfolding returns_def by simp
  qed
qed

lemma returns_if: "returns a \<Longrightarrow> returns b \<Longrightarrow> returns (if c then a else b)"
  by simp

lemma returns_info: "returns (info m)"
  by (simp add: info_def returns_emit)

lemma returns_warning: "returns (warning m)"
  by (simp add: warning_def returns_emit)

lemma returns_setOutput: "returns (setOutput k v)"
  by (simp add: setOutput_def returns_emit)

lemma copyEachAsset_returns: "returns (copyEachAsset h t as)"
  by (induction as) (simp_all add: copyAsset_def returns_ret returns_seq returns_tryCatch returns_warning)

lemma copyReleaseAssets_returns: "returns (copyReleaseAssets h src t)"
  unfolding copyReleaseAssets_def by (rule returns_tryCatch) (rule returns_warning)

lemma createMajorRelease_returns: "returns (createMajorRelease h mv fv orig c)"
  unfolding createMajorRelease_def
  by (rule returns_tryCatch) (simp add: returns_seq returns_warning returns_ret)

lemma run_major_returns: "returns (run_major h inp p nv rel)"
  unfolding run_major_def Let_def
  by (auto intro!: returns_ret returns_andThen createMajorRelease_returns returns_seq
      returns_info returns_setOutput split: option.splits)

lemma calculateVersion_has_dot:
  assumes "calculateVersion v rt p inp = Inr nv"
  shows "CHR ''.'' \<in> set nv"
  using assms
  by (auto simp: calculateVersion_def Let_def formatVersion_def split: if_splits)

lemma createAndPushTag_emits:
  assumes "\<And>m. P (Info m)" and "P (Exec GitPushHead)"
    and "\<And>c. written_tag (Exec c) = Some nv \<Longrightarrow> P (Exec c)"
  shows "emits P (createAndPushTag h nv)"
  unfolding createAndPushTag_def info_def exec_def
  by (intro emits_rules emits_emit emits_call assms) simp_all

lemma createRelease_emits:
  assumes "\<And>m. P (Info m)" and "\<And>m. P (ErrorLog m)"
    and "\<And>r. req_tag_name r = tag \<Longrightarrow> P (CreateRelease r)"
  shows "emits P (createRelease h tag name body pre)"
  unfolding createRelease_def info_def errorLog_def Let_def
  by (intro emits_rules emits_emit emits_call assms) simp_all

lemma run_release_emits:
  assumes "\<And>m. P (Info m)" and "\<And>m. P (ErrorLog m)" and "\<And>k v. P (SetOutput k v)"
    and "\<And>st. P (Step st)" and "P GetLatestVersion" and "\<And>a b. P (GenerateReleaseNotes a b)"
    and "P (Exec GitPushHead)"
    and "\<And>c nv. CHR ''.'' \<in> set nv \<Longrightarrow> written_tag (Exec c) = Some nv \<Longrightarrow> P (Exec c)"
    and "\<And>r. CHR ''.'' \<in> set (req_tag_name r) \<Longrightarrow> P (CreateRelease r)"
  shows "emits P (run_release h inp rt p)"
  unfolding run_release_def info_def setOutput_def performed_def
  apply (intro emits_andThen_lift emits_seq emits_andThen createAndPushTag_emits
      createRelease_emits emits_if emits_ret emits_emit emits_call emits_ask)
  apply (simp_all add: assms)
  apply (auto intro: assms dest: calculateVersion_has_dot)
  done

lemma updateMajorVersionTag_emits:
  assumes "\<And>e. \<not> is_SetFailed e \<Longrightarrow> P e"
  shows "emits P (updateMajorVersionTag h mv fv)"
  unfolding updateMajorVersionTag_def info_def warning_def exec_def
  by (intro emits_rules emits_emit emits_call assms) simp_all

lemma deleteMajorReleaseIfExists_emits:
  assumes "\<And>e. \<not> is_SetFailed e \<Longrightarrow> P e"
  shows "emits P (deleteMajorReleaseIfExists h mv)"
  unfolding deleteMajorReleaseIfExists_def info_def warning_def
  by (intro emits_rules emits_emit emits_call assms)
    (auto intro!: emits_rules emits_emit emits_call assms split: option.splits)

lemma copyEachAsset_emits:
  assumes "\<And>e. \<not> is_SetFailed e \<Longrightarrow> P e"
  shows "emits P (copyEachAsset h t as)"
proof (induction as)
  case Nil
  then show ?case by (simp add: emits_ret)
next
  case (Cons a as)
  then show ?case
    unfolding copyEachAsset.simps copyAsset_def info_def warning_def Let_def
    by (intro emits_rules emits_emit emits_call assms) simp_all
qed

lemma copyReleaseAssets_emits:
  assumes "\<And>e. \<not> is_SetFailed e \<Longrightarrow> P e"
  shows "emits P (copyReleaseAssets h src t)"
  unfolding copyReleaseAssets_def info_def warning_def
  by (intro emits_rules emits_emit emits_call assms)
    (auto intro!: emits_rules emits_emit copyEachAsset_emits assms split: option.splits)

lemma createMajorRelease_try_emits:
  assumes "\<And>e. \<not> is_SetFailed e \<Longrightarrow> P e"
  shows "emits P (createMajorRelease_try h mv fv orig c)"
  unfolding createMajorRelease_try_def info_def Let_def
  by (intro emits_rules emits_emit emits_call assms updateMajorVersionTag_emits
      deleteMajorReleaseIfExists_emits)
    (auto intro!: emits_rules copyReleaseAssets_emits assms split: option.splits)

lemma createMajorRelease_emits:
  assumes "\<And>e. \<not> is_SetFailed e \<Longrightarrow> P e"
  shows "emits P (createMajorRelease h mv fv orig c)"
  unfolding createMajorRelease_def warning_def
  by (intro emits_rules emits_emit createMajorRelease_try_emits assms) simp_all

lemma run_major_emits:
  assumes "\<And>e. \<not> is_SetFailed e \<Longrightarrow> P e"
  shows "emits P (run_major h inp p nv rel)"
  unfolding run_major_def info_def setOutput_def Let_def
  by (intro emits_rules emits_emit createMajorRelease_emits assms)
    (auto intro!: emits_rules emits_emit assms split: option.splits)

lemma run_release_emits_plain:
  assumes "\<And>e. \<not> is_SetFailed e \<Longrightarrow> P e"
  shows "emits P (run_release h inp rt p)"
  by (rule run_release_emits) (simp_all add: assms)

lemma always: "emits (\<lambda>e. True) m \<Longrightarrow> trace (snd (m s)) = trace s @ events_of m s"
  using emits_events [of "\<lambda>e. True" m s] by simp

lemma events_of_andThen:
  assumes "emits (\<lambda>e. True) m" and "emits (\<lambda>e. True) (f x)" and "fst (m s) = Inr x"
  shows "events_of (andThen m f) s = events_of m s @ events_of (f x) (snd (m s))"
    and "fst (andThen m f s) = fst (f x (snd (m s)))"
proof -
  have a: "andThen m f s = f x (snd (m s))"
    using assms(3) by (cases "m s") (simp add: andThen_def)
  obtain es1 where e1: "trace (snd (m s)) = trace s @ es1"
    using assms(1) by (rule emitsD)
  obtain es2 where e2: "trace (snd (f x (snd (m s)))) = trace (snd (m s)) @ es2"
    using assms(2) by (rule emitsD)
  have "events_of m s = es1" "events_of (f x) (snd (m s)) = es2"
    "events_of (andThen m f) s = es1 @ es2"
    by (simp_all add: events_of_def a e1 e2)
  then show "events_of (andThen m f) s = events_of m s @ events_of (f x) (snd (m s))"
    by simp
  show "fst (andThen m f s) = fst (f x (snd (m s)))" by (simp add: a)
qed

lemma events_of_seq:
  assumes "emits (\<lambda>e. True) m" and "emits (\<lambda>e. True) n" and "fst (m s) = Inr x"
  shows "events_of (seq m n) s = events_of m s @ events_of n (snd (m s))"
    and "fst (seq m n s) = fst (n (snd (m s)))"
  using events_of_andThen [of m "\<lambda>_. n" x s] assms by (simp_all add: seq_def)

lemma andThen_Inr:
  assumes "fst (andThen m f s) = Inr y"
  obtains x where "fst (m s) = Inr x" and "fst (f x (snd (m s))) = Inr y"
  using assms by (cases "m s"; cases "fst (m s)") (auto simp: andThen_def)

lemma on_return_emit: "on_return e (emit e)"
  by (simp add: on_return_def emit_def events_of_def)

lemma on_return_andThen:
  assumes "\<And>x. on_return e (f x)" and "emits (\<lambda>e. True) m" and "\<And>x. emits (\<lambda>e. True) (f x)"
  shows "on_return e (andThen m f)"
  unfolding on_return_def
proof (intro allI impI)
  fix s y
  assume "fst (andThen m f s) = Inr y"
  then obtain x where x: "fst (m s) = Inr x" "fst (f x (snd (m s))) = Inr y"
    by (rule andThen_Inr)
  then have "e \<in> set (events_of (f x) (snd (m s)))"
    using assms(1) [of x] by (simp add: on_return_def)
  then show "e \<in> set (events_of (andThen m f) s)"
    using events_of_andThen(1) [OF assms(2) assms(3) x(1)] by simp
qed

lemma on_return_seq:
  assumes "on_return e n" and "emits (\<lambda>e. True) m" and "emits (\<lambda>e. True) n"
  shows "on_return e (seq m n)"
  unfolding seq_def using assms by (intro on_return_andThen) simp_all

lemma on_return_first:
  assumes "on_return e m" and "emits (\<lambda>e. True) m" and "emits (\<lambda>e. True) n"
  shows "on_return e (seq m n)"
  unfolding on_return_def
proof (intro allI impI)
  fix s y
  assume "fst (seq m n s) = Inr y"
  then obtain x where x: "fst (m s) = Inr x"
    unfolding seq_def by (rule andThen_Inr)
  then have "e \<in> set (events_of m s)" using assms(1) by (simp add: on_return_def)
  then show "e \<in> set (events_of (seq m n) s)"
    using events_of_seq(1) [OF assms(2) assms(3) x] by simp
qed

lemma on_return_setOutput: "on_return (SetOutput k v) (setOutput k v)"
  by (simp add: setOutput_def on_return_emit)

lemma run_release_released: "on_return (SetOutput ''released'' ''true'') (run_release h inp rt p)"
  unfolding run_release_def
  apply ((rule on_return_first, rule on_return_setOutput)
         | rule on_return_seq | rule on_return_andThen)+
  apply (auto intro!: emits_rules emits_emit emits_call emits_ask createAndPushTag_emits
      createRelease_emits simp: info_def setOutput_def performed_def)
  done

subsection \<open>The major release step\<close>

lemma map_filter_append: "List.map_filter f (xs @ ys) = List.map_filter f xs @ List.map_filter f ys"
  by (simp add: List.map_filter_def)

lemma copyAsset_emits_all: "emits (\<lambda>e. True) (copyAsset h t a)"
  unfolding copyAsset_def info_def warning_def Let_def
  by (intro emits_rules emits_emit emits_call) simp_all

lemma copyAsset_attempt:
  "fst (copyAsset h t a s) = Inr ()
   \<and> List.map_filter fetched_asset (events_of (copyAsset h t a) s) = [asset_id a]"
proof (cases "reposGetReleaseAsset h (asset_id a) (world s)")
  case (Pair r w)
  note get = this
  show ?thesis
  proof (cases r)
    case (Inl e)
    with get show ?thesis
      by (simp add: copyAsset_def tryCatch_def andThen_def call_def warning_def emit_def
          events_of_def List.map_filter_simps)
  next
    case (Inr d)
    note data = this
    obtain r' w' where up: "reposUploadReleaseAsset h
        \<lparr> up_release_id = rel_id t, up_name = asset_name a, up_data = d,
          up_content_type = asset_content_type a, up_content_length = asset_size a \<rparr> w = (r', w')"
      by (cases "reposUploadReleaseAsset h
        \<lparr> up_release_id = rel_id t, up_name = asset_name a, up_data = d,
          up_content_type = asset_content_type a, up_content_length = asset_size a \<rparr> w") auto
    show ?thesis
    proof (cases r')
      case (Inl e)
      with get data up show ?thesis
        by (simp add: copyAsset_def tryCatch_def andThen_def seq_def call_def warning_def
            info_def emit_def events_of_def List.map_filter_simps Let_def)
    next
      case (Inr u)
      with get data up show ?thesis
        by (simp add: copyAsset_def tryCatch_def andThen_def seq_def call_def warning_def
            info_def emit_def events_of_def List.map_filter_simps Let_def)
    qed
  qed
qed

lemma copyEachAsset_attempts:
  "fst (copyEachAsset h t as s) = Inr ()
   \<and> List.map_filter fetched_asset (events_of (copyEachAsset h t as) s) = map asset_id as"
proof (induction as arbitrary: s)
  case Nil
  then show ?case by (simp add: ret_def events_of_def List.map_filter_simps)
next
  case (Cons a as)
  have one: "fst (copyAsset h t a s) = Inr ()"
    "List.map_filter fetched_asset (events_of (copyAsset h t a) s) = [asset_id a]"
    using copyAsset_attempt [of h t a s] by simp_all
  have e: "emits (\<lambda>e. True) (copyEachAsset h t as)"
    by (rule copyEachAsset_emits) simp
  note sq = events_of_seq [where m = "copyAsset h t a" and n = "copyEachAsset h t as" and s = s,
      OF copyAsset_emits_all e one(1)]
  show ?case
    using Cons [of "snd (copyAsset h t a s)"] one(2)
    by (simp add: sq map_filter_append)
qed

lemma info_events: "events_of (info m) s = [Info m] \<and> fst (info m s) = Inr ()"
  by (simp add: info_def emit_def events_of_def)

lemma copyReleaseAssets_attempts:
  "fst (copyReleaseAssets h src t s) = Inr ()
   \<and> List.map_filter fetched_asset (events_of (copyReleaseAssets h src t) s)
       = map asset_id (case rel_assets src of None \<Rightarrow> [] | Some as \<Rightarrow> as)"
proof (cases "rel_assets src")
  case None
  then show ?thesis
    by (simp add: copyReleaseAssets_def tryCatch_def info_def emit_def events_of_def
        List.map_filter_simps)
next
  case (Some as)
  show ?thesis
  proof (cases "as = []")
    case True
    with Some show ?thesis
      by (simp add: copyReleaseAssets_def tryCatch_def info_def emit_def events_of_def
          List.map_filter_simps)
  next
    case False
    let ?m = "info (''Copying '' @ numberToString (Fin (int (length as))) @ '' assets to major release'')"
    let ?body = "seq ?m (copyEachAsset h t as)"
    have e1: "emits (\<lambda>e. True) ?m" by (simp add: info_def emits_emit)
    have e2: "emits (\<lambda>e. True) (copyEachAsset h t as)" by (rule copyEachAsset_emits) simp
    have i: "fst (?m s) = Inr ()" by (simp add: info_events)
    note sq = events_of_seq [where m = ?m and n = "copyEachAsset h t as" and s = s, OF e1 e2 i]
    note loop = copyEachAsset_attempts [of h t as "snd (?m s)"]
    have ok: "fst (?body s) = Inr ()" using sq(2) loop by simp
    have ev: "List.map_filter fetched_asset (events_of ?body s) = map asset_id as"
      using sq(1) loop by (simp add: map_filter_append info_events List.map_filter_simps)
    have same: "tryCatch ?body (\<lambda>error. warning (''Failed to copy release assets: '' @ message error)) s
        = ?body s"
      using ok by (cases "?body s") (simp add: tryCatch_def)
    have "copyReleaseAssets h src t s = ?body s"
      using Some False same by (simp add: copyReleaseAssets_def)
    then show ?thesis using ok ev Some by (simp add: events_of_def)
  qed
qed

lemma tryCatch_caught:
  assumes "fst (m s) = Inl e"
  shows "tryCatch m h s = h e (snd (m s))"
  using assms by (cases "m s") (simp add: tryCatch_def)

lemma tryCatch_passed:
  assumes "fst (m s) = Inr x"
  shows "tryCatch m h s = (Inr x, snd (m s))"
  using assms by (cases "m s") (simp add: tryCatch_def)

lemma createMajorRelease_caught:
  assumes "fst (createMajorRelease_try h mv fv orig c s) = Inl e"
  shows "fst (createMajorRelease h mv fv orig c s) = Inr None
    \<and> events_of (createMajorRelease h mv fv orig c) s
        = events_of (createMajorRelease_try h mv fv orig c) s
          @ [Warning (''Failed to create major version release: '' @ message e)]"
proof -
  let ?t = "createMajorRelease_try h mv fv orig c"
  have "emits (\<lambda>e. True) ?t"
    by (rule createMajorRelease_try_emits) simp
  then obtain es where t: "trace (snd (?t s)) = trace s @ es"
    by (rule emitsD)
  then have es: "events_of ?t s = es" by (simp add: events_of_def)
  have "createMajorRelease h mv fv orig c s
      = seq (warning (''Failed to create major version release: '' @ message e)) (ret None) (snd (?t s))"
    unfolding createMajorRelease_def using assms by (rule tryCatch_caught)
  then show ?thesis
    unfolding es using t by (simp add: seq_def andThen_def warning_def emit_def ret_def events_of_def)
qed

lemma deleteMajorReleaseIfExists_returns: "fst (deleteMajorReleaseIfExists h mv s) = Inr ()"
proof -
  have "returns (deleteMajorReleaseIfExists h mv)"
    unfolding deleteMajorReleaseIfExists_def
    by (rule returns_tryCatch) (simp add: returns_info returns_warning)
  then show ?thesis by (auto simp: returns_def)
qed

lemma events_of_tryCatch_passed:
  assumes "fst (m s) = Inr x"
  shows "events_of (tryCatch m h) s = events_of m s" and "fst (tryCatch m h s) = Inr x"
  using tryCatch_passed [where m = m and s = s and x = x and h = h] assms
  by (simp_all add: events_of_def)

lemma run_after_release:
  assumes "fst (run_release h inp rt p s) = Inr x" and "rt \<noteq> ''none''"
  shows "fst (run h inp rt p s) = Inr ()
    \<and> list_all (\<lambda>e. \<not> is_SetFailed e) (events_of (run h inp rt p) s)
    \<and> SetOutput ''released'' ''true'' \<in> set (events_of (run h inp rt p) s)
    \<and> last (events_of (run h inp rt p) s) = Info ''Semantic release completed successfully!''"
proof -
  obtain nv rel where x: "x = (nv, rel)" by (cases x)
  let ?R = "run_release h inp rt p"
  let ?M = "run_major h inp p nv rel"
  let ?I = "info ''Semantic release completed successfully!'' :: (unit, 'a) action"
  let ?f = "\<lambda>(newVersion, release). seq (run_major h inp p newVersion release) ?I"
  let ?s1 = "snd (?R s)"
  have eR: "emits (\<lambda>e. True) ?R" by (rule run_release_emits_plain) simp
  have eM: "emits (\<lambda>e. True) ?M" by (rule run_major_emits) simp
  have eI: "emits (\<lambda>e. True) ?I" by (simp add: info_def emits_emit)
  have ef: "emits (\<lambda>e. True) (?f x)" using eM eI by (simp add: x emits_seq)
  have rM: "fst (?M ?s1) = Inr ()"
    using run_major_returns [of h inp p nv rel] by (auto simp: returns_def)
  note sq = events_of_seq [where m = ?M and n = ?I and s = ?s1 and x = "()", OF eM eI rM]
  note at = events_of_andThen [where m = ?R and f = ?f and s = s and x = x, OF eR ef assms(1)]
  have body_ok: "fst (andThen ?R ?f s) = Inr ()"
    using at(2) sq(2) by (simp add: x info_events)
  have body_ev: "events_of (andThen ?R ?f) s = events_of ?R s @ events_of ?M ?s1
      @ [Info ''Semantic release completed successfully!'']"
    using at(1) sq(1) by (simp add: x info_events)
  have run_eq: "run h inp rt p = tryCatch (andThen ?R ?f)
      (\<lambda>error. seq (errorLog (''Action failed: '' @ message error)) (setFailed (message error)))"
    using assms(2) by (simp add: run_def)
  have ok: "fst (run h inp rt p s) = Inr ()"
    unfolding run_eq using body_ok by (rule events_of_tryCatch_passed(2))
  have ev: "events_of (run h inp rt p) s = events_of ?R s @ events_of ?M ?s1
      @ [Info ''Semantic release completed successfully!'']"
    unfolding run_eq
    using events_of_tryCatch_passed(1) [where m = "andThen ?R ?f" and s = s, OF body_ok] body_ev
    by simp
  have qR: "list_all (\<lambda>e. \<not> is_SetFailed e) (events_of ?R s)"
    using emits_events [OF run_release_emits_plain, of "\<lambda>e. \<not> is_SetFailed e" h inp rt p s] by simp
  have qM: "list_all (\<lambda>e. \<not> is_SetFailed e) (events_of ?M ?s1)"
    using emits_events [OF run_major_emits, of "\<lambda>e. \<not> is_SetFailed e" h inp p nv rel ?s1] by simp
  have rel: "SetOutput ''released'' ''true'' \<in> set (events_of ?R s)"
    using run_release_released [of h inp rt p] assms(1) by (simp add: on_return_def)
  show ?thesis using ok qR qM rel by (simp add: ev)
qed

lemma run_major_skipped:
  "p \<or> \<not> baseRelease inp \<Longrightarrow> run_major h inp p nv rel s = (Inr (), s)"
  by (auto simp: run_major_def ret_def)

lemma leaves_major_alone_simps:
  "leaves_major_alone (Info m)" "leaves_major_alone (Warning m)" "leaves_major_alone (ErrorLog m)"
  "leaves_major_alone (SetOutput k v)" "leaves_major_alone (SetFailed m)"
  "leaves_major_alone (Step st)" "leaves_major_alone GetLatestVersion"
  "leaves_major_alone (GenerateReleaseNotes a b)" "leaves_major_alone (Exec GitPushHead)"
  "leaves_major_alone (CreateRelease r) = (CHR ''.'' \<in> set (req_tag_name r))"
  by (simp_all add: leaves_major_alone_def)

lemma leaves_major_alone_Exec:
  "written_tag (Exec c) = Some nv \<Longrightarrow> CHR ''.'' \<in> set nv \<Longrightarrow> leaves_major_alone (Exec c)"
  by (cases c) (simp_all add: leaves_major_alone_def)

lemma run_without_major_emits:
  assumes "p \<or> \<not> baseRelease inp"
  shows "emits leaves_major_alone (run h inp rt p)"
proof -
  have R: "emits leaves_major_alone (run_release h inp rt p)"
    by (rule run_release_emits) (auto simp: leaves_major_alone_simps intro: leaves_major_alone_Exec)
  have M: "\<And>nv rel. run_major h inp p nv rel = ret ()"
    using assms by (auto simp: run_major_def)
  show ?thesis
    unfolding run_def M info_def setOutput_def errorLog_def setFailed_def
    by (intro emits_rules emits_emit R) (auto intro!: emits_rules emits_emit simp: leaves_major_alone_simps)
qed

lemma major_name_no_dot: "CHR ''.'' \<notin> set (hd (split v CHR ''.''))"
  by (simp add: split_hd) (metis (mono_tags, lifting) set_takeWhileD)

lemma repoint_failure_reaches_catch:
  assumes "fst (updateMajorVersionTag h mv fv
            (snd (info (''Creating major version release: '' @ mv) s))) = Inl e"
  shows "fst (createMajorRelease_try h mv fv orig c s) = Inl e"
proof -
  let ?s0 = "snd (info (''Creating major version release: '' @ mv) s)"
  obtain s1 where u: "updateMajorVersionTag h mv fv ?s0 = (Inl e, s1)"
    using assms by (cases "updateMajorVersionTag h mv fv ?s0") auto
  show ?thesis
    unfolding createMajorRelease_try_def seq_def andThen_def
    using u by (simp add: info_def emit_def)
qed

lemma stale_release_failure_warns:
  assumes "fst (reposGetReleaseByTag h mv (world s)) = Inl e" and "status e \<noteq> Some 404"
  shows "events_of (deleteMajorReleaseIfExists h mv) s
    = [GetReleaseByTag mv, Warning (''Error checking for existing major release: '' @ message e)]"
  using assms
  by (cases "reposGetReleaseByTag h mv (world s)")
    (simp add: deleteMajorReleaseIfExists_def tryCatch_def andThen_def call_def warning_def
      emit_def events_of_def)

lemma asset_failure_warns:
  assumes "fst (reposGetReleaseAsset h (asset_id a) (world s)) = Inl e"
  shows "events_of (copyAsset h tgt a) s
    = [GetReleaseAsset (asset_id a),
       Warning (''Failed to copy asset '' @ asset_name a @ '': '' @ message e)]"
  using assms
  by (cases "reposGetReleaseAsset h (asset_id a) (world s)")
    (simp add: copyAsset_def tryCatch_def andThen_def call_def warning_def emit_def events_of_def)

lemma asset_upload_failure_warns:
  assumes "reposGetReleaseAsset h (asset_id a) (world s) = (Inr d, w)"
    and "fst (reposUploadReleaseAsset h (upload_of tgt a d) w) = Inl e"
  shows "events_of (copyAsset h tgt a) s
    = [GetReleaseAsset (asset_id a), UploadReleaseAsset (upload_of tgt a d),
       Warning (''Failed to copy asset '' @ asset_name a @ '': '' @ message e)]"
  using assms
  by (cases "reposUploadReleaseAsset h (upload_of tgt a d) w")
    (simp add: copyAsset_def tryCatch_def andThen_def seq_def call_def warning_def info_def
      emit_def events_of_def Let_def upload_of_def)

lemma asset_copied:
  assumes "reposGetReleaseAsset h (asset_id a) (world s) = (Inr d, w)"
    and "fst (reposUploadReleaseAsset h (upload_of tgt a d) w) = Inr u"
  shows "events_of (copyAsset h tgt a) s
    = [GetReleaseAsset (asset_id a), UploadReleaseAsset (upload_of tgt a d),
       Info (''Copied asset: '' @ asset_name a)]"
  using assms
  by (cases "reposUploadReleaseAsset h (upload_of tgt a d) w")
    (simp add: copyAsset_def tryCatch_def andThen_def seq_def call_def warning_def info_def
      emit_def events_of_def Let_def upload_of_def)

lemma copyAsset_returns: "fst (copyAsset h tgt a s) = Inr ()"
  using copyAsset_attempt [of h tgt a s] by simp

lemma copyEachAsset_next:
  "events_of (copyEachAsset h tgt (a # rest)) s
    = events_of (copyAsset h tgt a) s
      @ events_of (copyEachAsset h tgt rest) (snd (copyAsset h tgt a s))"
proof -
  have e: "emits (\<lambda>e. True) (copyEachAsset h tgt rest)"
    by (rule copyEachAsset_emits) simp
  show ?thesis
    using events_of_seq(1) [where m = "copyAsset h tgt a" and n = "copyEachAsset h tgt rest"
        and s = s, OF copyAsset_emits_all e copyAsset_returns]
    by simp
qed

lemma copyReleaseAssets_loop:
  assumes "rel_assets src = Some as" and "as \<noteq> []"
  shows "events_of (copyReleaseAssets h src tgt) s
    = Info (''Copying '' @ numberToString (Fin (int (length as))) @ '' assets to major release'')
      # events_of (copyEachAsset h tgt as)
          (snd (info (''Copying '' @ numberToString (Fin (int (length as)))
                      @ '' assets to major release'') s))"
proof -
  let ?m = "info (''Copying '' @ numberToString (Fin (int (length as))) @ '' assets to major release'')"
  let ?body = "seq ?m (copyEachAsset h tgt as)"
  have e1: "emits (\<lambda>e. True) ?m" by (simp add: info_def emits_emit)
  have e2: "emits (\<lambda>e. True) (copyEachAsset h tgt as)" by (rule copyEachAsset_emits) simp
  have i: "fst (?m s) = Inr ()" by (simp add: info_events)
  note sq = events_of_seq [where m = ?m and n = "copyEachAsset h tgt as" and s = s, OF e1 e2 i]
  have ok: "fst (?body s) = Inr ()"
    using sq(2) copyEachAsset_attempts [of h tgt as "snd (?m s)"] by simp
  have "copyReleaseAssets h src tgt
      = tryCatch ?body (\<lambda>error. warning (''Failed to copy release assets: '' @ message error))"
    using assms by (simp add: copyReleaseAssets_def)
  then have "events_of (copyReleaseAssets h src tgt) s = events_of ?body s"
    using events_of_tryCatch_passed(1) [where m = ?body and s = s, OF ok] by simp
  then show ?thesis using sq(1) by (simp add: info_events)
qed

text \<open>
  Claim C7. Whatever the host does, \<open>createMajorRelease\<close> throws nothing: when its \<open>try\<close>
  block throws, as it does when the major tag cannot be repointed, it returns \<open>null\<close> and
  the trace ends with the warning. A failed look-up of the stale release ends in a
  warning as well. \<open>copyReleaseAssets\<close> throws nothing and asks for every asset of the
  source release, one after the other, whichever of them fail. For each asset the loop
  throws nothing: a failed download ends in a warning; after a download that succeeds
  the contents are uploaded to the target release under the name of the asset, and the
  upload ends in the line \<open>Copied asset\<close> or, when it fails, in a warning; then the loop
  goes on with the assets that remain, from the state that the asset left. Once the
  release of the new version is made and its outputs are set, \<open>run\<close> throws nothing, never
  calls \<open>setFailed\<close>, has set \<open>released\<close> to \<open>true\<close>, and ends with the line of success.
\<close>

theorem major_reconciliation_is_not_fatal:
  "(\<exists>r. fst (createMajorRelease h mv fv orig c s) = Inr r)
   \<and> (\<forall>e. fst (createMajorRelease_try h mv fv orig c s) = Inl e \<longrightarrow>
          fst (createMajorRelease h mv fv orig c s) = Inr None
          \<and> events_of (createMajorRelease h mv fv orig c) s
              = events_of (createMajorRelease_try h mv fv orig c) s
                @ [Warning (''Failed to create major version release: '' @ message e)])
   \<and> (\<forall>e. fst (updateMajorVersionTag h mv fv
                 (snd (info (''Creating major version release: '' @ mv) s))) = Inl e \<longrightarrow>
          fst (createMajorRelease_try h mv fv orig c s) = Inl e)
   \<and> fst (deleteMajorReleaseIfExists h mv s) = Inr ()
   \<and> (\<forall>e. fst (reposGetReleaseByTag h mv (world s)) = Inl e \<and> status e \<noteq> Some 404 \<longrightarrow>
          events_of (deleteMajorReleaseIfExists h mv) s
            = [GetReleaseByTag mv,
               Warning (''Error checking for existing major release: '' @ message e)])
   \<and> (\<forall>e. fst (reposGetReleaseAsset h (asset_id a) (world s)) = Inl e \<longrightarrow>
          events_of (copyAsset h tgt a) s
            = [GetReleaseAsset (asset_id a),
               Warning (''Failed to copy asset '' @ asset_name a @ '': '' @ message e)])
   \<and> fst (copyReleaseAssets h src tgt s) = Inr ()
   \<and> List.map_filter fetched_asset (events_of (copyReleaseAssets h src tgt) s)
       = map asset_id (case rel_assets src of None \<Rightarrow> [] | Some as \<Rightarrow> as)
   \<and> (\<forall>x. fst (run_release h inp rt p s) = Inr x \<and> rt \<noteq> ''none'' \<longrightarrow>
          fst (run h inp rt p s) = Inr ()
          \<and> (\<forall>e\<in>set (events_of (run h inp rt p) s). \<not> is_SetFailed e)
          \<and> SetOutput ''released'' ''true'' \<in> set (events_of (run h inp rt p) s)
          \<and> last (events_of (run h inp rt p) s)
              = Info ''Semantic release completed successfully!'')
   \<and> fst (copyAsset h tgt a s) = Inr ()
   \<and> (\<forall>d w e. reposGetReleaseAsset h (asset_id a) (world s) = (Inr d, w)
          \<and> fst (reposUploadReleaseAsset h (upload_of tgt a d) w) = Inl e \<longrightarrow>
          events_of (copyAsset h tgt a) s
            = [GetReleaseAsset (asset_id a), UploadReleaseAsset (upload_of tgt a d),
               Warning (''Failed to copy asset '' @ asset_name a @ '': '' @ message e)])
   \<and> (\<forall>d w u. reposGetReleaseAsset h (asset_id a) (world s) = (Inr d, w)
          \<and> fst (reposUploadReleaseAsset h (upload_of tgt a d) w) = Inr u \<longrightarrow>
          events_of (copyAsset h tgt a) s
            = [GetReleaseAsset (asset_id a), UploadReleaseAsset (upload_of tgt a d),
               Info (''Copied asset: '' @ asset_name a)])
   \<and> events_of (copyEachAsset h tgt (a # rest)) s
       = events_of (copyAsset h tgt a) s
         @ events_of (copyEachAsset h tgt rest) (snd (copyAsset h tgt a s))
   \<and> (\<forall>as. rel_assets src = Some as \<and> as \<noteq> [] \<longrightarrow>
          events_of (copyReleaseAssets h src tgt) s
            = Info (''Copying '' @ numberToString (Fin (int (length as)))
                    @ '' assets to major release'')
              # events_of (copyEachAsset h tgt as)
                  (snd (info (''Copying '' @ numberToString (Fin (int (length as)))
                              @ '' assets to major release'') s)))"
proof -
  have a: "\<exists>r. fst (createMajorRelease h mv fv orig c s) = Inr r"
    using createMajorRelease_returns [of h mv fv orig c] by (simp add: returns_def)
  have b: "\<forall>e. fst (createMajorRelease_try h mv fv orig c s) = Inl e \<longrightarrow>
          fst (createMajorRelease h mv fv orig c s) = Inr None
          \<and> events_of (createMajorRelease h mv fv orig c) s
              = events_of (createMajorRelease_try h mv fv orig c) s
                @ [Warning (''Failed to create major version release: '' @ message e)]"
    using createMajorRelease_caught [of h mv fv orig c s] by blast
  have c: "\<forall>e. fst (updateMajorVersionTag h mv fv
                 (snd (info (''Creating major version release: '' @ mv) s))) = Inl e \<longrightarrow>
          fst (createMajorRelease_try h mv fv orig c s) = Inl e"
    using repoint_failure_reaches_catch [of h mv fv s _ orig c] by blast
  have d: "fst (deleteMajorReleaseIfExists h mv s) = Inr ()"
    by (rule deleteMajorReleaseIfExists_returns)
  have e: "\<forall>e. fst (reposGetReleaseByTag h mv (world s)) = Inl e \<and> status e \<noteq> Some 404 \<longrightarrow>
          events_of (deleteMajorReleaseIfExists h mv) s
            = [GetReleaseByTag mv,
               Warning (''Error checking for existing major release: '' @ message e)]"
    using stale_release_failure_warns [of h mv s] by blast
  have f: "\<forall>e. fst (reposGetReleaseAsset h (asset_id a) (world s)) = Inl e \<longrightarrow>
          events_of (copyAsset h tgt a) s
            = [GetReleaseAsset (asset_id a),
               Warning (''Failed to copy asset '' @ asset_name a @ '': '' @ message e)]"
    using asset_failure_warns [of h a s _ tgt] by blast
  have g: "fst (copyReleaseAssets h src tgt s) = Inr ()"
    "List.map_filter fetched_asset (events_of (copyReleaseAssets h src tgt) s)
       = map asset_id (case rel_assets src of None \<Rightarrow> [] | Some as \<Rightarrow> as)"
    using copyReleaseAssets_attempts [of h src tgt s] by simp_all
  have i: "\<forall>x. fst (run_release h inp rt p s) = Inr x \<and> rt \<noteq> ''none'' \<longrightarrow>
          fst (run h inp rt p s) = Inr ()
          \<and> (\<forall>e\<in>set (events_of (run h inp rt p) s). \<not> is_SetFailed e)
          \<and> SetOutput ''released'' ''true'' \<in> set (events_of (run h inp rt p) s)
          \<and> last (events_of (run h inp rt p) s)
              = Info ''Semantic release completed successfully!''"
    using run_after_release [of h inp rt p s] by (simp add: list_all_iff)
  have j: "fst (copyAsset h tgt a s) = Inr ()"
    by (rule copyAsset_returns)
  have k: "\<forall>d w e. reposGetReleaseAsset h (asset_id a) (world s) = (Inr d, w)
          \<and> fst (reposUploadReleaseAsset h (upload_of tgt a d) w) = Inl e \<longrightarrow>
          events_of (copyAsset h tgt a) s
            = [GetReleaseAsset (asset_id a), UploadReleaseAsset (upload_of tgt a d),
               Warning (''Failed to copy asset '' @ asset_name a @ '': '' @ message e)]"
    using asset_upload_failure_warns [of h a s _ _ tgt] by blast
  have l: "\<forall>d w u. reposGetReleaseAsset h (asset_id a) (world s) = (Inr d, w)
          \<and> fst (reposUploadReleaseAsset h (upload_of tgt a d) w) = Inr u \<longrightarrow>
          events_of (copyAsset h tgt a) s
            = [GetReleaseAsset (asset_id a), UploadReleaseAsset (upload_of tgt a d),
               Info (''Copied asset: '' @ asset_name a)]"
    using asset_copied [of h a s _ _ tgt] by blast
  have m: "events_of (copyEachAsset h tgt (a # rest)) s
       = events_of (copyAsset h tgt a) s
         @ events_of (copyEachAsset h tgt rest) (snd (copyAsset h tgt a s))"
    by (rule copyEachAsset_next)
  have n: "\<forall>as. rel_assets src = Some as \<and> as \<noteq> [] \<longrightarrow>
          events_of (copyReleaseAssets h src tgt) s
            = Info (''Copying '' @ numberToString (Fin (int (length as)))
                    @ '' assets to major release'')
              # events_of (copyEachAsset h tgt as)
                  (snd (info (''Copying '' @ numberToString (Fin (int (length as)))
                              @ '' assets to major release'') s))"
    using copyReleaseAssets_loop [of src _ h tgt s] by blast
  from a b c d e f g i j k l m n show ?thesis
    by (intro conjI)
qed

lemmas action_defs = seq_def andThen_def tryCatch_def ret_def throw_def emit_def call_def ask_def
  exec_def info_def warning_def errorLog_def setOutput_def setFailed_def performed_def lift_def
  Let_def

lemmas example_defs = example_host_def example_outside_def start_def
  execGit_def rest_call_def can_push_head_def without_tag_def command_failed_def
  example_release_def example_release_with_assets_def example_major_release_def

lemmas run_defs = run_def run_release_def run_major_def createMajorRelease_def
  createMajorRelease_try_def updateMajorVersionTag_def deleteMajorReleaseIfExists_def
  createMajorReleaseNotes_def copyReleaseAssets_def copyAsset_def createAndPushTag_def
  createRelease_def

lemma example_patch: "calculateVersion ''v1.2.4'' ''patch'' False example_inputs = Inr ''v1.2.5''"
  by code_simp

lemma example_patch_prerelease:
  "calculateVersion ''v1.2.4'' ''patch'' True example_inputs = Inr ''v1.2.5-beta.1''"
  by code_simp

lemma example_inputs_fields:
  "baseRelease example_inputs" "copyAssets example_inputs" "updatePackageJson example_inputs"
  "packageJsonPath example_inputs = ''package.json''"
  by (simp_all add: example_inputs_def)

text \<open>
  On the example host: a service that refuses the creation of the major release, a
  machine without git, a refused look-up, an asset the service does not store, an asset
  that is copied, an upload that the service refuses, the copy of two assets of which
  the first fails, and a run that succeeds with a warning.
\<close>

theorem major_reconciliation_is_not_fatal_witness:
  "fst (createMajorRelease_try example_host ''v1'' ''v1.2.5'' (Some example_release) True
          (start (example_outside \<lparr> calls_left := 1 \<rparr>)))
     = Inl (RequestError 403 ''API rate limit exceeded'')
   \<and> fst (createMajorRelease example_host ''v1'' ''v1.2.5'' (Some example_release) True
          (start (example_outside \<lparr> calls_left := 1 \<rparr>)))
     = Inr None
   \<and> last (events_of (createMajorRelease example_host ''v1'' ''v1.2.5'' (Some example_release) True)
          (start (example_outside \<lparr> calls_left := 1 \<rparr>)))
     = Warning ''Failed to create major version release: API rate limit exceeded''
   \<and> fst (createMajorRelease host_without_git ''v1'' ''v1.2.5'' (Some example_release) True
          (start example_outside))
     = Inr None
   \<and> events_of (deleteMajorReleaseIfExists example_host ''v1'')
        (start (example_outside \<lparr> calls_left := 0 \<rparr>))
     = [GetReleaseByTag ''v1'',
        Warning ''Error checking for existing major release: API rate limit exceeded'']
   \<and> events_of (copyAsset example_host example_major_release
          \<lparr> asset_id = 7, asset_name = ''a.zip'', asset_content_type = ''application/zip'',
            asset_size = 3 \<rparr>) (start example_outside)
     = [GetReleaseAsset 7, Warning ''Failed to copy asset a.zip: Not Found'']
   \<and> events_of (copyAsset example_host example_major_release
          \<lparr> asset_id = 8, asset_name = ''b.zip'', asset_content_type = ''application/zip'',
            asset_size = 6 \<rparr>) (start example_outside)
     = [GetReleaseAsset 8,
        UploadReleaseAsset
          \<lparr> up_release_id = 1, up_name = ''b.zip'', up_data = ''binary'',
            up_content_type = ''application/zip'', up_content_length = 6 \<rparr>,
        Info ''Copied asset: b.zip'']
   \<and> events_of (copyAsset example_host example_major_release
          \<lparr> asset_id = 8, asset_name = ''b.zip'', asset_content_type = ''application/zip'',
            asset_size = 6 \<rparr>) (start (example_outside \<lparr> calls_left := 1 \<rparr>))
     = [GetReleaseAsset 8,
        UploadReleaseAsset
          \<lparr> up_release_id = 1, up_name = ''b.zip'', up_data = ''binary'',
            up_content_type = ''application/zip'', up_content_length = 6 \<rparr>,
        Warning ''Failed to copy asset b.zip: API rate limit exceeded'']
   \<and> events_of (copyReleaseAssets example_host example_release_with_assets example_major_release)
        (start example_outside)
     = [Info ''Copying 2 assets to major release'',
        GetReleaseAsset 7,
        Warning ''Failed to copy asset a.zip: Not Found'',
        GetReleaseAsset 8,
        UploadReleaseAsset
          \<lparr> up_release_id = 1, up_name = ''b.zip'', up_data = ''binary'',
            up_content_type = ''application/zip'', up_content_length = 6 \<rparr>,
        Info ''Copied asset: b.zip'']
   \<and> List.map_filter fetched_asset
        (events_of (copyReleaseAssets example_host example_release_with_assets example_major_release)
           (start example_outside))
     = [7, 8]
   \<and> fst (copyReleaseAssets example_host example_release_with_assets example_major_release
          (start example_outside)) = Inr ()
   \<and> fst (run_release example_host example_inputs ''patch'' False
          (start (example_outside \<lparr> calls_left := 2 \<rparr>)))
     = Inr (''v1.2.5'', example_release)
   \<and> fst (run example_host example_inputs ''patch'' False
          (start (example_outside \<lparr> calls_left := 2 \<rparr>))) = Inr ()
   \<and> Warning ''Failed to create major version release: API rate limit exceeded''
       \<in> set (events_of (run example_host example_inputs ''patch'' False)
             (start (example_outside \<lparr> calls_left := 2 \<rparr>)))
   \<and> list_all (\<lambda>e. \<not> is_SetFailed e)
        (events_of (run example_host example_inputs ''patch'' False)
           (start (example_outside \<lparr> calls_left := 2 \<rparr>)))
   \<and> SetOutput ''released'' ''true''
       \<in> set (events_of (run example_host example_inputs ''patch'' False)
             (start (example_outside \<lparr> calls_left := 2 \<rparr>)))
   \<and> last (events_of (run example_host example_inputs ''patch'' False)
          (start (example_outside \<lparr> calls_left := 2 \<rparr>)))
     = Info ''Semantic release completed successfully!''"
proof -
  let ?w0 = "start example_outside"
  let ?w1 = "start (example_outside \<lparr> calls_left := 1 \<rparr>)"
  let ?w2 = "start (example_outside \<lparr> calls_left := 2 \<rparr>)"
  let ?w3 = "start (example_outside \<lparr> calls_left := 0 \<rparr>)"
  let ?a7 = "\<lparr> asset_id = 7, asset_name = ''a.zip'', asset_content_type = ''application/zip'',
            asset_size = 3 \<rparr>"
  let ?a8 = "\<lparr> asset_id = 8, asset_name = ''b.zip'', asset_content_type = ''application/zip'',
            asset_size = 6 \<rparr>"
  let ?up = "\<lparr> up_release_id = 1, up_name = ''b.zip'', up_data = ''binary'',
            up_content_type = ''application/zip'', up_content_length = 6 \<rparr>"
  let ?copying = "''Copying '' @ numberToString (Fin (int (length [?a7, ?a8]))) @ '' assets to major release''"
  note t = major_reconciliation_is_not_fatal
    [where mv = "''v1''" and fv = "''v1.2.5''" and orig = "Some example_release" and c = True
      and src = example_release_with_assets and tgt = example_major_release
      and inp = example_inputs and rt = "''patch''" and p = False and rest = "[]"]
  note t0 = t [where h = example_host and s = ?w0 and a = ?a7]
  note t1 = t [where h = example_host and s = ?w1 and a = ?a8]
  note t2 = t [where h = example_host and s = ?w2 and a = ?a7]
  note t3 = t [where h = example_host and s = ?w3 and a = ?a7]
  note t4 = t [where h = host_without_git and s = ?w0 and a = ?a7]
  note t5 = t [where h = example_host and s = ?w0 and a = ?a8]

  have fails: "fst (createMajorRelease_try example_host ''v1'' ''v1.2.5'' (Some example_release) True ?w1)
      = Inl (RequestError 403 ''API rate limit exceeded'')"
    by (simp add: run_defs action_defs example_defs)
  note caught = t1 [THEN conjunct2, THEN conjunct1, rule_format, OF fails]
  have caught1: "fst (createMajorRelease example_host ''v1'' ''v1.2.5'' (Some example_release) True ?w1)
      = Inr None"
    using caught by (rule conjunct1)
  have caught2: "last (events_of (createMajorRelease example_host ''v1'' ''v1.2.5''
      (Some example_release) True) ?w1)
      = Warning ''Failed to create major version release: API rate limit exceeded''"
    using caught [THEN conjunct2] by simp

  have nogit: "fst (updateMajorVersionTag host_without_git ''v1'' ''v1.2.5''
      (snd (info (''Creating major version release: '' @ ''v1'') ?w0)))
      = Inl (Error ''Command failed: git: not found'')"
    by (simp add: run_defs action_defs example_defs host_without_git_def)
  note try_fails = t4 [THEN conjunct2, THEN conjunct2, THEN conjunct1, rule_format, OF nogit]
  note repoint = t4 [THEN conjunct2, THEN conjunct1, rule_format, OF try_fails, THEN conjunct1]

  have limited: "fst (reposGetReleaseByTag example_host ''v1'' (world ?w3))
      = Inl (RequestError 403 ''API rate limit exceeded'')"
    "status (RequestError 403 ''API rate limit exceeded'') \<noteq> Some 404"
    by (simp_all add: example_defs)
  note stale = t3 [THEN conjunct2, THEN conjunct2, THEN conjunct2, THEN conjunct2, THEN conjunct1,
      rule_format, OF conjI [OF limited]]
  have stale': "events_of (deleteMajorReleaseIfExists example_host ''v1'') ?w3
     = [GetReleaseByTag ''v1'',
        Warning ''Error checking for existing major release: API rate limit exceeded'']"
    using stale by simp

  have missing: "fst (reposGetReleaseAsset example_host (asset_id ?a7) (world ?w0))
      = Inl (RequestError 404 ''Not Found'')"
    by (simp add: example_defs)
  note one = t0 [THEN conjunct2, THEN conjunct2, THEN conjunct2, THEN conjunct2, THEN conjunct2,
      THEN conjunct1, rule_format, OF missing]
  have one': "events_of (copyAsset example_host example_major_release ?a7) ?w0
     = [GetReleaseAsset 7, Warning ''Failed to copy asset a.zip: Not Found'']"
    using one by simp

  have up: "upload_of example_major_release ?a8 ''binary'' = ?up"
    by (simp add: upload_of_def example_major_release_def)
  have stored: "reposGetReleaseAsset example_host (asset_id ?a8) (world ?w0)
      = (Inr ''binary'', example_outside \<lparr> calls_left := 9 \<rparr>)"
    by (simp add: example_defs)
  have accepted: "fst (reposUploadReleaseAsset example_host
      (upload_of example_major_release ?a8 ''binary'') (example_outside \<lparr> calls_left := 9 \<rparr>))
      = Inr ()"
    by (simp add: example_defs)
  note copied = t5 [THEN conjunct2, THEN conjunct2, THEN conjunct2, THEN conjunct2, THEN conjunct2,
      THEN conjunct2, THEN conjunct2, THEN conjunct2, THEN conjunct2, THEN conjunct2,
      THEN conjunct2, THEN conjunct1, rule_format, OF conjI [OF stored accepted]]
  have copied': "events_of (copyAsset example_host example_major_release ?a8) ?w0
     = [GetReleaseAsset 8, UploadReleaseAsset ?up, Info ''Copied asset: b.zip'']"
    using copied by (simp add: up)

  have stored1: "reposGetReleaseAsset example_host (asset_id ?a8) (world ?w1)
      = (Inr ''binary'', example_outside \<lparr> calls_left := 0 \<rparr>)"
    by (simp add: example_defs)
  have refused: "fst (reposUploadReleaseAsset example_host
      (upload_of example_major_release ?a8 ''binary'') (example_outside \<lparr> calls_left := 0 \<rparr>))
      = Inl (RequestError 403 ''API rate limit exceeded'')"
    by (simp add: example_defs)
  note not_copied = t1 [THEN conjunct2, THEN conjunct2, THEN conjunct2, THEN conjunct2,
      THEN conjunct2, THEN conjunct2, THEN conjunct2, THEN conjunct2, THEN conjunct2,
      THEN conjunct2, THEN conjunct1, rule_format, OF conjI [OF stored1 refused]]
  have not_copied': "events_of (copyAsset example_host example_major_release ?a8) ?w1
     = [GetReleaseAsset 8, UploadReleaseAsset ?up,
        Warning ''Failed to copy asset b.zip: API rate limit exceeded'']"
    using not_copied by (simp add: up)

  have assets: "rel_assets example_release_with_assets = Some [?a7, ?a8]" "[?a7, ?a8] \<noteq> []"
    by (simp_all add: example_release_with_assets_def example_release_def)
  note loop = t0 [THEN conjunct2, THEN conjunct2, THEN conjunct2, THEN conjunct2, THEN conjunct2,
      THEN conjunct2, THEN conjunct2, THEN conjunct2, THEN conjunct2, THEN conjunct2,
      THEN conjunct2, THEN conjunct2, THEN conjunct2, rule_format, OF conjI [OF assets]]
  have two: "numberToString (Fin 2) = ''2''"
    by code_simp
  have rest: "events_of (copyEachAsset example_host example_major_release [?a7, ?a8])
      (snd (info ?copying ?w0))
     = [GetReleaseAsset 7, Warning ''Failed to copy asset a.zip: Not Found'',
        GetReleaseAsset 8, UploadReleaseAsset ?up, Info ''Copied asset: b.zip'']"
    by (simp add: run_defs action_defs example_defs events_of_def)
  have all: "events_of (copyReleaseAssets example_host example_release_with_assets
      example_major_release) ?w0
     = [Info ''Copying 2 assets to major release'',
        GetReleaseAsset 7, Warning ''Failed to copy asset a.zip: Not Found'',
        GetReleaseAsset 8, UploadReleaseAsset ?up, Info ''Copied asset: b.zip'']"
    by (simp only: loop rest) (simp add: two)

  have fetched: "List.map_filter fetched_asset
        (events_of (copyReleaseAssets example_host example_release_with_assets example_major_release) ?w0)
      = [7, 8]"
    using t0 [THEN conjunct2, THEN conjunct2, THEN conjunct2, THEN conjunct2, THEN conjunct2,
      THEN conjunct2, THEN conjunct2, THEN conjunct1]
    by (simp add: example_release_with_assets_def)
  have returned: "fst (copyReleaseAssets example_host example_release_with_assets
      example_major_release ?w0) = Inr ()"
    using t0 [THEN conjunct2, THEN conjunct2, THEN conjunct2, THEN conjunct2, THEN conjunct2,
      THEN conjunct2, THEN conjunct1] .

  have released: "fst (run_release example_host example_inputs ''patch'' False ?w2)
      = Inr (''v1.2.5'', example_release)"
    by (simp add: run_defs action_defs example_defs example_patch example_inputs_fields)
  have warned: "Warning ''Failed to create major version release: API rate limit exceeded''
      \<in> set (events_of (run example_host example_inputs ''patch'' False) ?w2)"
    by (simp add: run_defs action_defs example_defs example_patch example_inputs_fields
        events_of_def)
  have "''patch'' \<noteq> ''none''" by simp
  note ran = t2 [THEN conjunct2, THEN conjunct2, THEN conjunct2, THEN conjunct2, THEN conjunct2,
      THEN conjunct2, THEN conjunct2, THEN conjunct2, THEN conjunct1, rule_format,
      OF conjI [OF released this]]
  have ran1: "fst (run example_host example_inputs ''patch'' False ?w2) = Inr ()"
    using ran by (rule conjunct1)
  have ran2: "list_all (\<lambda>e. \<not> is_SetFailed e)
      (events_of (run example_host example_inputs ''patch'' False) ?w2)"
    using ran [THEN conjunct2, THEN conjunct1] by (simp only: list_all_iff)
  have ran3: "SetOutput ''released'' ''true''
      \<in> set (events_of (run example_host example_inputs ''patch'' False) ?w2)"
    using ran [THEN conjunct2, THEN conjunct2, THEN conjunct1] .
  have ran4: "last (events_of (run example_host example_inputs ''patch'' False) ?w2)
      = Info ''Semantic release completed successfully!''"
    using ran [THEN conjunct2, THEN conjunct2, THEN conjunct2] .
  from fails caught1 caught2 repoint stale' one' copied' not_copied' all fetched returned
    released ran1 warned ran2 ran3 ran4
  show ?thesis
    by (intro conjI)
qed

subsection \<open>Prereleases and the major-tracking tag\<close>

text \<open>
  Claim C8. In a run for a prerelease no git command and no REST call of \<open>run\<close> writes a
  tag or a release whose name has no dot, or changes a release by its id, and
  \<open>run_major\<close> does nothing; the same holds when major tracking is not asked for. So an
  event that touches a major-tracking tag or release only occurs when \<open>baseRelease\<close> is set
  and the release is no prerelease. Major-tracking names have no dot. (What
  \<open>getLatestVersion\<close> and the steps left to the host do is not part of the statement.)
\<close>

theorem prerelease_leaves_major_alone:
  "(\<forall>e\<in>set (events_of (run h inp rt True) s). leaves_major_alone e)
   \<and> run_major h inp True nv rel s = (Inr (), s)
   \<and> (p \<or> \<not> baseRelease inp \<longrightarrow>
        (\<forall>e\<in>set (events_of (run h inp rt p) s). leaves_major_alone e)
        \<and> run_major h inp p nv rel s = (Inr (), s))
   \<and> ((\<exists>e\<in>set (events_of (run h inp rt p) s). \<not> leaves_major_alone e) \<longrightarrow>
        baseRelease inp \<and> \<not> p)
   \<and> CHR ''.'' \<notin> set (hd (split nv CHR ''.''))"
proof -
  have quiet: "\<And>q. q \<or> \<not> baseRelease inp \<Longrightarrow>
      \<forall>e\<in>set (events_of (run h inp rt q) s). leaves_major_alone e"
    using emits_events [OF run_without_major_emits, of _ inp h rt s] by (simp add: list_all_iff)
  have skip: "\<And>q. q \<or> \<not> baseRelease inp \<Longrightarrow> run_major h inp q nv rel s = (Inr (), s)"
    by (rule run_major_skipped)
  show ?thesis
    using quiet [of True] skip [of True] quiet [of p] skip [of p] major_name_no_dot [of nv]
    by blast
qed

text \<open>
  A prerelease run on the example host leaves the tag \<open>v1\<close> at commit 3; the same run
  for a release moves it.
\<close>

theorem prerelease_leaves_major_alone_witness:
  "list_all leaves_major_alone
      (events_of (run example_host example_inputs ''patch'' True) (start example_outside))
   \<and> run_major example_host example_inputs True ''v1.2.5-beta.1'' example_release
        (start example_outside) = (Inr (), start example_outside)
   \<and> map_of (local_tags (repo (world
        (snd (run example_host example_inputs ''patch'' True (start example_outside)))))) ''v1''
      = Some 3
   \<and> Exec (GitTagAnnotate ''v1'' ''Major version tag pointing to v1.2.5'')
       \<in> set (events_of (run example_host example_inputs ''patch'' False) (start example_outside))
   \<and> \<not> leaves_major_alone (Exec (GitTagAnnotate ''v1'' ''Major version tag pointing to v1.2.5''))
   \<and> baseRelease example_inputs
   \<and> hd (split ''v1.2.5'' CHR ''.'') = ''v1''"
proof -
  let ?w = "start example_outside"
  note t = prerelease_leaves_major_alone
    [of example_host example_inputs "''patch''" ?w "''v1.2.5-beta.1''" example_release False]
  have kept: "map_of (local_tags (repo (world
        (snd (run example_host example_inputs ''patch'' True ?w))))) ''v1'' = Some 3"
    by (simp add: run_defs action_defs example_defs example_patch_prerelease example_inputs_fields
        numberToString_def)
  have moved: "Exec (GitTagAnnotate ''v1'' ''Major version tag pointing to v1.2.5'')
       \<in> set (events_of (run example_host example_inputs ''patch'' False) ?w)"
    by (simp add: run_defs action_defs example_defs example_patch example_inputs_fields
        events_of_def numberToString_def)
  have not_alone: "\<not> leaves_major_alone (Exec (GitTagAnnotate ''v1'' ''Major version tag pointing to v1.2.5''))"
    by (simp add: leaves_major_alone_def)
  have name: "hd (split ''v1.2.5'' CHR ''.'') = ''v1''"
    by simp
  from t have quiet: "list_all leaves_major_alone (events_of (run example_host example_inputs ''patch'' True) ?w)"
    by (simp add: list_all_iff)
  from t have skipped: "run_major example_host example_inputs True ''v1.2.5-beta.1'' example_release ?w
      = (Inr (), ?w)"
    by simp
  from t moved not_alone have base: "baseRelease example_inputs"
    by blast
  from quiet skipped kept moved not_alone base name show ?thesis
    by (intro conjI)
qed

end
